theory Spec2Isabelle
  imports Complex_Main "HOL-Library.Sublist" "HOL-Library.Log_Nat"
begin

section \<open>Data model of the developer-activity component\<close>

text \<open>
  The interfaces \<^verbatim>\<open>GitHubContributionDay\<close> and \<^verbatim>\<open>GitHubContributionWeek\<close> of the
  component. A JavaScript \<^verbatim>\<open>number\<close> that holds a count or an index is an \<^typ>\<open>int\<close>.
\<close>

record GitHubContributionDay =
  contributionCount :: int
  date :: string
  color :: string
  weekday :: int

record GitHubContributionWeek =
  contributionDays :: "GitHubContributionDay list"

text \<open>The object \<^verbatim>\<open>{ currentStreak, longestStreak }\<close> returned by \<^verbatim>\<open>computeGitHubStreaks\<close>.\<close>

record StreakSummary =
  currentStreak :: int
  longestStreak :: int

section \<open>Derivation functions\<close>

subsection \<open>\<^verbatim>\<open>getGitHubLevel\<close>\<close>

definition getGitHubLevel :: "int \<Rightarrow> int" where
  "getGitHubLevel count =
     (if count = 0 then 0
      else if count \<le> 3 then 1
      else if count \<le> 6 then 2
      else if count \<le> 9 then 3
      else 4)"

subsection \<open>\<^verbatim>\<open>computeGitHubStreaks\<close>\<close>

text \<open>
  The body of the first loop, \<^verbatim>\<open>for (const day of allDays)\<close>, on the pair
  \<^verbatim>\<open>(longestStreak, tempStreak)\<close>.
\<close>

fun forward_step :: "int \<times> int \<Rightarrow> GitHubContributionDay \<Rightarrow> int \<times> int" where
  "forward_step (longest, temp) day =
     (if contributionCount day > 0
      then (max longest (temp + 1), temp + 1)
      else (longest, 0))"

text \<open>
  The second loop, \<^verbatim>\<open>for (let i = allDays.length - 1; i >= 0; i--)\<close>. The second argument
  is \<^verbatim>\<open>i + 1\<close>, so that \<open>0\<close> is the loop's exit at \<^verbatim>\<open>i = -1\<close>; the \<^verbatim>\<open>break\<close> returns
  the counter as it is. The index read is always below the length of the list.
\<close>

fun backward_loop :: "GitHubContributionDay list \<Rightarrow> nat \<Rightarrow> int \<Rightarrow> int" where
  "backward_loop allDays 0 current = current"
| "backward_loop allDays (Suc i) current =
     (if contributionCount (allDays ! i) > 0
      then backward_loop allDays i (current + 1)
      else current)"

text \<open>\<^verbatim>\<open>weeks.flatMap((w) => w.contributionDays)\<close>\<close>

definition flatDays :: "GitHubContributionWeek list \<Rightarrow> GitHubContributionDay list" where
  "flatDays weeks = concat (map contributionDays weeks)"

definition computeGitHubStreaks :: "GitHubContributionWeek list \<Rightarrow> StreakSummary" where
  "computeGitHubStreaks weeks =
     (let allDays = flatDays weeks;
          (longest, temp) = foldl forward_step (0, 0) allDays;
          current = backward_loop allDays (length allDays) 0
      in \<lparr>currentStreak = current, longestStreak = longest\<rparr>)"

subsection \<open>The streaks as the specification words them\<close>

text \<open>
  A day is active when its count is positive. A run is a contiguous stretch of the day
  sequence whose days are all active; the empty stretch is a run of length \<open>0\<close>.
  \<open>spec_longest_run\<close> is the maximum length of a run, \<open>spec_trailing_run\<close> the number of
  active days met when walking backward from the end of the sequence up to the first
  day that is not active, or to the start.
\<close>

definition active :: "GitHubContributionDay \<Rightarrow> bool" where
  "active day = (0 < contributionCount day)"

definition active_runs :: "GitHubContributionDay list \<Rightarrow> GitHubContributionDay list list" where
  "active_runs days = filter (list_all active) (sublists days)"

definition spec_longest_run :: "GitHubContributionDay list \<Rightarrow> nat" where
  "spec_longest_run days = Max (set (map length (active_runs days)))"

definition spec_trailing_run :: "GitHubContributionDay list \<Rightarrow> nat" where
  "spec_trailing_run days = length (takeWhile active (rev days))"

text \<open>Test data: a day with a given count, and a week of such days.\<close>

definition day_of_count :: "int \<Rightarrow> GitHubContributionDay" where
  "day_of_count c =
     \<lparr>contributionCount = c, date = ''2024-01-01'', color = ''#ebedf0'', weekday = 0\<rparr>"

definition week_of_counts :: "int list \<Rightarrow> GitHubContributionWeek" where
  "week_of_counts cs = \<lparr>contributionDays = map day_of_count cs\<rparr>"

section \<open>The time-tracking route: dates\<close>

subsection \<open>The built-in \<^verbatim>\<open>Date\<close>\<close>

text \<open>
  \<^verbatim>\<open>getDateRange\<close> computes with the built-in \<^verbatim>\<open>Date\<close>. Its operations are modelled after
  their definition in the ECMAScript standard (Date objects: day number and time within
  day, year number, month number, date number, \<^verbatim>\<open>MakeDay\<close>, \<^verbatim>\<open>MakeDate\<close>, \<^verbatim>\<open>TimeClip\<close>,
  \<^verbatim>\<open>LocalTime\<close>, \<^verbatim>\<open>UTC\<close>). A time value is an integer number of milliseconds since
  1970-01-01T00:00:00Z; an invalid date (\<^verbatim>\<open>NaN\<close>) is \<open>None\<close>. The time zone of the host is
  the function \<^verbatim>\<open>LocalTZA(t, isUTC)\<close> of the standard, here the parameter \<open>tza\<close>:
  \<open>tza t True\<close> is the offset in milliseconds in force at the UTC time \<open>t\<close>, and
  \<open>tza t False\<close> the offset the host takes for the local time \<open>t\<close>. With daylight saving
  the two change over the year.
\<close>

type_synonym zone = "int \<Rightarrow> bool \<Rightarrow> int"

definition msPerDay :: int where
  "msPerDay = 86400000"

definition Day :: "int \<Rightarrow> int" where
  "Day t = t div msPerDay"

definition TimeWithinDay :: "int \<Rightarrow> int" where
  "TimeWithinDay t = t mod msPerDay"

definition DaysInYear :: "int \<Rightarrow> int" where
  "DaysInYear y =
     (if y mod 4 \<noteq> 0 then 365
      else if y mod 100 \<noteq> 0 then 366
      else if y mod 400 \<noteq> 0 then 365
      else 366)"

definition DayFromYear :: "int \<Rightarrow> int" where
  "DayFromYear y =
     365 * (y - 1970) + (y - 1969) div 4 - (y - 1901) div 100 + (y - 1601) div 400"

text \<open>
  The standard defines the year of a time as the largest \<open>y\<close> whose first day is not after
  it. \<open>year_search\<close> finds it by counting up from a year that is not too late; its
  termination is proved below, once the length of a year is known to be positive, and
  \<open>YearFromTime_largest\<close> shows that the result is the year of the standard.
\<close>

function year_search :: "int \<Rightarrow> int \<Rightarrow> int" where
  "year_search y d = (if DayFromYear (y + 1) \<le> d then year_search (y + 1) d else y)"
  by pat_completeness auto

text \<open>\<open>leap_year\<close> is \<^verbatim>\<open>InLeapYear\<close> as a function of the year: \<open>1\<close> in a leap year, else \<open>0\<close>.\<close>

definition leap_year :: "int \<Rightarrow> int" where
  "leap_year y = (if DaysInYear y = 366 then 1 else 0)"

definition YearFromDay :: "int \<Rightarrow> int" where
  "YearFromDay d = year_search (1970 + (if 0 \<le> d then d div 366 else d div 365)) d"

definition YearFromTime :: "int \<Rightarrow> int" where
  "YearFromTime t = YearFromDay (Day t)"

definition InLeapYear :: "int \<Rightarrow> int" where
  "InLeapYear t = leap_year (YearFromTime t)"

definition DayWithinYear :: "int \<Rightarrow> int" where
  "DayWithinYear t = Day t - DayFromYear (YearFromTime t)"

definition MonthFromTime :: "int \<Rightarrow> int" where
  "MonthFromTime t =
     (let dwy = DayWithinYear t; leap = InLeapYear t
      in if dwy < 31 then 0
         else if dwy < 59 + leap then 1
         else if dwy < 90 + leap then 2
         else if dwy < 120 + leap then 3
         else if dwy < 151 + leap then 4
         else if dwy < 181 + leap then 5
         else if dwy < 212 + leap then 6
         else if dwy < 243 + leap then 7
         else if dwy < 273 + leap then 8
         else if dwy < 304 + leap then 9
         else if dwy < 334 + leap then 10
         else 11)"

definition DateFromTime :: "int \<Rightarrow> int" where
  "DateFromTime t =
     (let dwy = DayWithinYear t; leap = InLeapYear t; m = MonthFromTime t
      in if m = 0 then dwy + 1
         else if m = 1 then dwy - 30
         else if m = 2 then dwy - 58 - leap
         else if m = 3 then dwy - 89 - leap
         else if m = 4 then dwy - 119 - leap
         else if m = 5 then dwy - 150 - leap
         else if m = 6 then dwy - 180 - leap
         else if m = 7 then dwy - 211 - leap
         else if m = 8 then dwy - 242 - leap
         else if m = 9 then dwy - 272 - leap
         else if m = 10 then dwy - 303 - leap
         else dwy - 333 - leap)"

text \<open>
  The day within the year on which month \<open>m\<close> (\<open>0\<close> to \<open>11\<close>) starts, and the number of
  days of a month. \<^verbatim>\<open>MakeDay(year, month, date)\<close> is the day number of the first of the
  month, found after carrying \<open>month\<close> into the year, plus \<open>date - 1\<close>: a date past the
  end of the month runs on into the months after it.
\<close>

definition month_start :: "int \<Rightarrow> int \<Rightarrow> int" where
  "month_start leap m =
     (if m = 0 then 0
      else if m = 1 then 31
      else if m = 2 then 59 + leap
      else if m = 3 then 90 + leap
      else if m = 4 then 120 + leap
      else if m = 5 then 151 + leap
      else if m = 6 then 181 + leap
      else if m = 7 then 212 + leap
      else if m = 8 then 243 + leap
      else if m = 9 then 273 + leap
      else if m = 10 then 304 + leap
      else 334 + leap)"

definition MakeDay :: "int \<Rightarrow> int \<Rightarrow> int \<Rightarrow> int" where
  "MakeDay year month dt =
     (let ym = year + month div 12; mn = month mod 12
      in DayFromYear ym + month_start (leap_year ym) mn + dt - 1)"

definition days_in_month :: "int \<Rightarrow> int \<Rightarrow> int" where
  "days_in_month y m =
     (if m = 1 then 28 + leap_year y
      else if m = 3 \<or> m = 5 \<or> m = 8 \<or> m = 10 then 30
      else 31)"

definition MakeDate :: "int \<Rightarrow> int \<Rightarrow> int" where
  "MakeDate day time = day * msPerDay + time"

definition TimeClip :: "int \<Rightarrow> int option" where
  "TimeClip t = (if \<bar>t\<bar> > 8640000000000000 then None else Some t)"

definition LocalTime :: "zone \<Rightarrow> int \<Rightarrow> int" where
  "LocalTime tza t = t + tza t True"

definition UTC :: "zone \<Rightarrow> int \<Rightarrow> int" where
  "UTC tza t = t - tza t False"

text \<open>
  The getters and setters that \<^verbatim>\<open>getDateRange\<close> calls, on a valid date \<open>t\<close>. They work in
  local time. A setter builds the local time \<^verbatim>\<open>newDate\<close> from the fields of the local time
  \<open>lt\<close> of its date, with one field replaced and the time within the day kept, and
  returns \<^verbatim>\<open>TimeClip(UTC(newDate))\<close>.
\<close>

definition getDate :: "zone \<Rightarrow> int \<Rightarrow> int" where
  "getDate tza t = DateFromTime (LocalTime tza t)"

definition getMonth :: "zone \<Rightarrow> int \<Rightarrow> int" where
  "getMonth tza t = MonthFromTime (LocalTime tza t)"

definition getFullYear :: "zone \<Rightarrow> int \<Rightarrow> int" where
  "getFullYear tza t = YearFromTime (LocalTime tza t)"

definition newDate_setDate :: "int \<Rightarrow> int \<Rightarrow> int" where
  "newDate_setDate lt dt = MakeDate (MakeDay (YearFromTime lt) (MonthFromTime lt) dt) (TimeWithinDay lt)"

definition newDate_setMonth :: "int \<Rightarrow> int \<Rightarrow> int" where
  "newDate_setMonth lt m = MakeDate (MakeDay (YearFromTime lt) m (DateFromTime lt)) (TimeWithinDay lt)"

definition newDate_setFullYear :: "int \<Rightarrow> int \<Rightarrow> int" where
  "newDate_setFullYear lt y = MakeDate (MakeDay y (MonthFromTime lt) (DateFromTime lt)) (TimeWithinDay lt)"

definition setDate :: "zone \<Rightarrow> int \<Rightarrow> int \<Rightarrow> int option" where
  "setDate tza t dt = TimeClip (UTC tza (newDate_setDate (LocalTime tza t) dt))"

definition setMonth :: "zone \<Rightarrow> int \<Rightarrow> int \<Rightarrow> int option" where
  "setMonth tza t m = TimeClip (UTC tza (newDate_setMonth (LocalTime tza t) m))"

definition setFullYear :: "zone \<Rightarrow> int \<Rightarrow> int \<Rightarrow> int option" where
  "setFullYear tza t y = TimeClip (UTC tza (newDate_setFullYear (LocalTime tza t) y))"

text \<open>
  \<^verbatim>\<open>d.toISOString().split("T")[0]\<close>: the date part \<^verbatim>\<open>YYYY-MM-DD\<close> of the UTC time, with a
  sign and six digits for a year outside \<open>0\<close> to \<open>9999\<close>. \<^verbatim>\<open>toISOString\<close> throws a
  \<^verbatim>\<open>RangeError\<close> on an invalid date.
\<close>

fun digits :: "nat \<Rightarrow> nat \<Rightarrow> string" where
  "digits 0 n = []"
| "digits (Suc k) n = digits k (n div 10) @ [char_of (48 + n mod 10)]"

definition isoYear :: "int \<Rightarrow> string" where
  "isoYear y =
     (if 0 \<le> y \<and> y \<le> 9999 then digits 4 (nat y)
      else (if y < 0 then ''-'' else ''+'') @ digits 6 (nat \<bar>y\<bar>))"

definition isoDate :: "int \<Rightarrow> string" where
  "isoDate t =
     isoYear (YearFromTime t) @ ''-'' @ digits 2 (nat (MonthFromTime t + 1)) @ ''-'' @
     digits 2 (nat (DateFromTime t))"

datatype js_error = RangeError | TypeError | GenericError

definition fmt :: "int option \<Rightarrow> js_error + string" where
  "fmt d = (case d of None \<Rightarrow> Inl RangeError | Some t \<Rightarrow> Inr (isoDate t))"

record DateRange =
  start_date :: string
  end_date :: string

subsection \<open>\<^verbatim>\<open>getDateRange\<close>\<close>

text \<open>
  The function reads the clock twice: \<open>endTime\<close> is the reading held by \<^verbatim>\<open>end\<close>, taken
  first, and \<open>startTime\<close> the one held by \<^verbatim>\<open>start\<close>. \<open>rangeStart\<close> is the \<^verbatim>\<open>switch\<close>: the
  value of \<^verbatim>\<open>start\<close> after it. Each branch sets one field of \<^verbatim>\<open>start\<close> from a field of
  \<^verbatim>\<open>end\<close>.
\<close>

definition rangeStart :: "zone \<Rightarrow> int \<Rightarrow> int \<Rightarrow> string \<Rightarrow> int option" where
  "rangeStart tza endTime startTime range' =
     (if range' = ''last_7_days'' then setDate tza startTime (getDate tza endTime - 7)
      else if range' = ''last_30_days'' then setDate tza startTime (getDate tza endTime - 30)
      else if range' = ''last_6_months'' then setMonth tza startTime (getMonth tza endTime - 6)
      else if range' = ''last_year'' then setFullYear tza startTime (getFullYear tza endTime - 1)
      else setFullYear tza startTime (getFullYear tza endTime - 10))"

definition getDateRange :: "zone \<Rightarrow> int \<Rightarrow> int \<Rightarrow> string \<Rightarrow> js_error + DateRange" where
  "getDateRange tza endTime startTime range' =
     (let end' = Some endTime;
          start = rangeStart tza endTime startTime range'
      in case fmt start of
           Inl e \<Rightarrow> Inl e
         | Inr s \<Rightarrow> (case fmt end' of Inl e \<Rightarrow> Inl e | Inr e \<Rightarrow> Inr \<lparr>start_date = s, end_date = e\<rparr>))"

text \<open>
  The words of the specification. The local time \<open>ls\<close> lies \<open>k\<close> months back from the
  local time \<open>lt\<close> when it is the same day of the month at the same time of day, \<open>k\<close>
  calendar months earlier. That day exists when the month \<open>k\<close> months earlier is long
  enough for it. A range key is known when it names one of the four bounded windows.
\<close>

definition months_back :: "int \<Rightarrow> int \<Rightarrow> int \<Rightarrow> bool" where
  "months_back k lt ls =
     (12 * YearFromTime ls + MonthFromTime ls = 12 * YearFromTime lt + MonthFromTime lt - k \<and>
      DateFromTime ls = DateFromTime lt \<and>
      TimeWithinDay ls = TimeWithinDay lt)"

definition day_exists :: "int \<Rightarrow> int \<Rightarrow> bool" where
  "day_exists k lt =
     (let target = 12 * YearFromTime lt + MonthFromTime lt - k
      in DateFromTime lt \<le> days_in_month (target div 12) (target mod 12))"

definition known_range :: "string \<Rightarrow> bool" where
  "known_range r = (r \<in> {''last_7_days'', ''last_30_days'', ''last_6_months'', ''last_year''})"

text \<open>
  The conditions on the host under which the windows are stated. \<open>localStart\<close> is the
  local time that the setter of the branch hands to \<^verbatim>\<open>UTC\<close>. The offsets of a zone are
  \<open>zone_spread\<close> when any two of them differ by at most two days, as the offsets of every
  real zone and of every zone with one fixed offset do.
\<close>

definition localStart :: "zone \<Rightarrow> int \<Rightarrow> int \<Rightarrow> string \<Rightarrow> int" where
  "localStart tza endTime startTime range' =
     (if range' = ''last_7_days''
      then newDate_setDate (LocalTime tza startTime) (getDate tza endTime - 7)
      else if range' = ''last_30_days''
      then newDate_setDate (LocalTime tza startTime) (getDate tza endTime - 30)
      else if range' = ''last_6_months''
      then newDate_setMonth (LocalTime tza startTime) (getMonth tza endTime - 6)
      else if range' = ''last_year''
      then newDate_setFullYear (LocalTime tza startTime) (getFullYear tza endTime - 1)
      else newDate_setFullYear (LocalTime tza startTime) (getFullYear tza endTime - 10))"

definition zone_spread :: "zone \<Rightarrow> bool" where
  "zone_spread tza = (\<forall>t b t' b'. \<bar>tza t b - tza t' b'\<bar> \<le> 2 * msPerDay)"

text \<open>
  Test data: the zone of UTC, a zone five and a half hours ahead of it, and a zone with
  daylight saving (the offsets of New York around the change of 2024-03-10, when local
  time 02:00 became 03:00).
\<close>

definition utc_zone :: zone where
  "utc_zone t isUTC = 0"

definition india_zone :: zone where
  "india_zone t isUTC = 19800000"

definition dst_zone :: zone where
  "dst_zone t isUTC =
     (if isUTC then (if t < 1710054000000 then - 18000000 else - 14400000)
      else (if t < 1710039600000 then - 18000000 else - 14400000))"

subsection \<open>\<^verbatim>\<open>getMonthLabels\<close> and the rendered label spans\<close>

text \<open>
  A JavaScript \<^verbatim>\<open>number\<close> that may be \<^verbatim>\<open>NaN\<close>: the month read from a date is an integer
  or, for an invalid date, \<^verbatim>\<open>NaN\<close>. \<open>strict_neq\<close> is \<^verbatim>\<open>!==\<close> on such numbers: \<^verbatim>\<open>NaN\<close> differs
  from every number, itself included.
\<close>

datatype js_number = Num int | NaN

fun strict_neq :: "js_number \<Rightarrow> js_number \<Rightarrow> bool" where
  "strict_neq (Num a) (Num b) = (a \<noteq> b)"
| "strict_neq _ _ = True"

definition MONTH_LABELS :: "string list" where
  "MONTH_LABELS = [''Jan'', ''Feb'', ''Mar'', ''Apr'', ''May'', ''Jun'',
                   ''Jul'', ''Aug'', ''Sep'', ''Oct'', ''Nov'', ''Dec'']"

text \<open>
  \<^verbatim>\<open>MONTH_LABELS[month]\<close>: an index outside the array, or \<^verbatim>\<open>NaN\<close>, reads \<^verbatim>\<open>undefined\<close>,
  which is \<open>None\<close> here.
\<close>

fun month_label :: "js_number \<Rightarrow> string option" where
  "month_label (Num k) =
     (if 0 \<le> k \<and> k < int (length MONTH_LABELS) then Some (MONTH_LABELS ! nat k) else None)"
| "month_label NaN = None"

record MonthLabel =
  label :: "string option"
  col :: int

text \<open>
  The callback of \<^verbatim>\<open>weeks.forEach((week, i) => ...)\<close> on the state
  \<^verbatim>\<open>(labels, lastMonth)\<close>. The parameter \<open>monthOf\<close> stands for the built-in
  \<^verbatim>\<open>s => new Date(s).getMonth()\<close>. A week without days is skipped (\<^verbatim>\<open>if (!firstDay) return\<close>).
\<close>

fun label_step ::
  "(string \<Rightarrow> js_number) \<Rightarrow> MonthLabel list \<times> js_number \<Rightarrow> nat \<times> GitHubContributionWeek
     \<Rightarrow> MonthLabel list \<times> js_number" where
  "label_step monthOf (labels, lastMonth) (i, week) =
     (case contributionDays week of
        [] \<Rightarrow> (labels, lastMonth)
      | firstDay # _ \<Rightarrow>
          (let month = monthOf (date firstDay @ ''T00:00:00'')
           in if strict_neq month lastMonth
              then (labels @ [\<lparr>label = month_label month, col = int i\<rparr>], month)
              else (labels, lastMonth)))"

definition label_loop ::
  "(string \<Rightarrow> js_number) \<Rightarrow> GitHubContributionWeek list \<Rightarrow> MonthLabel list \<times> js_number" where
  "label_loop monthOf weeks = foldl (label_step monthOf) ([], Num (- 1)) (enumerate 0 weeks)"

definition getMonthLabels ::
  "(string \<Rightarrow> js_number) \<Rightarrow> GitHubContributionWeek list \<Rightarrow> MonthLabel list" where
  "getMonthLabels monthOf weeks = fst (label_loop monthOf weeks)"

text \<open>
  The spans computed where the component renders the labels:
  \<^verbatim>\<open>nextCol = i < monthLabels.length - 1 ? monthLabels[i + 1].col : githubData.weeks.length\<close>
  and \<^verbatim>\<open>span = nextCol - m.col\<close>. The read \<^verbatim>\<open>monthLabels[i + 1]\<close> is guarded by the test.
\<close>

definition label_spans :: "MonthLabel list \<Rightarrow> GitHubContributionWeek list \<Rightarrow> int list" where
  "label_spans monthLabels weeks =
     map (\<lambda>(i, m).
            (let nextCol = (if int i < int (length monthLabels) - 1
                            then col (monthLabels ! (i + 1))
                            else int (length weeks))
             in nextCol - col m))
         (enumerate 0 monthLabels)"

text \<open>
  What \<^verbatim>\<open>Date.prototype.getMonth\<close> can return: an integer from \<open>0\<close> to \<open>11\<close>, or \<^verbatim>\<open>NaN\<close>.
\<close>

definition getMonth_range :: "(string \<Rightarrow> js_number) \<Rightarrow> bool" where
  "getMonth_range monthOf =
     (\<forall>s. case monthOf s of Num k \<Rightarrow> 0 \<le> k \<and> k \<le> 11 | NaN \<Rightarrow> True)"

text \<open>
  The words of the specification: the month of a week is the month of its first day;
  the labels emitted before week \<open>i\<close> are those in a column left of \<open>i\<close>; the month of
  the previously emitted label is the month of the week in whose column the last of them
  stands, and \<^verbatim>\<open>-1\<close> (the initial \<^verbatim>\<open>lastMonth\<close>) when there is none. \<open>new_label\<close> is the
  label pushed for week \<open>i\<close>.
\<close>

definition week_month :: "(string \<Rightarrow> js_number) \<Rightarrow> GitHubContributionWeek \<Rightarrow> js_number" where
  "week_month monthOf week = monthOf (date (hd (contributionDays week)) @ ''T00:00:00'')"

definition emitted_before :: "MonthLabel list \<Rightarrow> nat \<Rightarrow> MonthLabel list" where
  "emitted_before labels i = filter (\<lambda>l. col l < int i) labels"

definition previous_month ::
  "(string \<Rightarrow> js_number) \<Rightarrow> GitHubContributionWeek list \<Rightarrow> MonthLabel list \<Rightarrow> js_number" where
  "previous_month monthOf weeks emitted =
     (if emitted = [] then Num (- 1)
      else week_month monthOf (weeks ! nat (col (last emitted))))"

definition new_label :: "(string \<Rightarrow> js_number) \<Rightarrow> GitHubContributionWeek list \<Rightarrow> nat \<Rightarrow> MonthLabel" where
  "new_label f weeks i = \<lparr>label = month_label (week_month f (weeks ! i)), col = int i\<rparr>"

text \<open>
  Test data: a month reader for strings of the form \<^verbatim>\<open>YYYY-MM-DDT00:00:00\<close>, and a week
  that starts on a given date.
\<close>

fun digit_val :: "char \<Rightarrow> int option" where
  "digit_val c = (let n = int (of_char c :: nat) in if 48 \<le> n \<and> n \<le> 57 then Some (n - 48) else None)"

definition iso_month :: "string \<Rightarrow> js_number" where
  "iso_month s =
     (if length s = 19 then
        (case (digit_val (s ! 5), digit_val (s ! 6)) of
           (Some a, Some b) \<Rightarrow> (if 1 \<le> 10 * a + b \<and> 10 * a + b \<le> 12 then Num (10 * a + b - 1) else NaN)
         | _ \<Rightarrow> NaN)
      else NaN)"

definition week_starting :: "string \<Rightarrow> GitHubContributionWeek" where
  "week_starting d = \<lparr>contributionDays = [\<lparr>contributionCount = 0, date = d, color = ''#ebedf0'', weekday = 0\<rparr>]\<rparr>"

definition five_weeks :: "GitHubContributionWeek list" where
  "five_weeks =
     map week_starting [''2024-01-21'', ''2024-01-28'', ''2024-02-04'', ''2024-02-11'', ''2024-03-03'']"

section \<open>Time-tracking statistics\<close>

text \<open>
  The interfaces \<^verbatim>\<open>HackatimeLanguage\<close> and \<^verbatim>\<open>HackatimeData\<close>. Durations and percentages are
  JavaScript numbers, that is, binary64 floating-point numbers. A finite number is given
  by its value, a rational (the numbers are the rationals that \<open>round64\<close> below leaves
  unchanged); the two zeros are one value, which no operation below tells apart. The
  arithmetic of the bar width, which rounds and can leave the finite numbers, is written
  out below. The fields \<^verbatim>\<open>text\<close> and \<^verbatim>\<open>color\<close> of a language are \<open>text'\<close> and \<open>color'\<close> here,
  and \<^verbatim>\<open>total_seconds\<close> of the statistics is \<open>total_seconds'\<close>. In \<^verbatim>\<open>HackatimeData\<close> the
  field \<^verbatim>\<open>languages\<close> is optional because the component reads it with \<^verbatim>\<open>?.\<close>.
\<close>

record HackatimeLanguage =
  name :: string
  total_seconds :: rat
  percent :: rat
  text' :: string
  color' :: "string option"

record HackatimeData =
  total_seconds' :: rat
  daily_average :: rat
  languages :: "HackatimeLanguage list option"
  human_readable_total :: "string option"
  human_readable_daily_average :: "string option"
  human_readable_range :: "string option"
  streak :: "rat option"
  start :: "string option"

subsection \<open>Arithmetic of JavaScript numbers\<close>

text \<open>
  The result of an arithmetic operation is the exact result rounded to the nearest
  binary64 number, ties to the even significand. \<open>pow2 e\<close> is \<open>2\<close> to the power \<open>e\<close>, and
  \<open>floor_log2 a\<close> the exponent of the binade of a positive \<open>a\<close>. A number in the binade of
  exponent \<open>e\<close> is a multiple of \<open>pow2 (e - 52)\<close>; below the least normal exponent \<open>- 1022\<close>
  the spacing stays that of the subnormal numbers. \<open>round64\<close> is \<open>None\<close> when the rounded
  value exceeds the largest finite number, where JavaScript gives an infinity.
\<close>

definition pow2 :: "int \<Rightarrow> rat" where
  "pow2 e = (if 0 \<le> e then 2 ^ nat e else 1 / 2 ^ nat (- e))"

definition floor_log2 :: "rat \<Rightarrow> int" where
  "floor_log2 a =
     (let (n, d) = quotient_of a; e = bitlen n - bitlen d
      in if pow2 e \<le> a then e else e - 1)"

definition round_even :: "rat \<Rightarrow> int" where
  "round_even x =
     (let f = \<lfloor>x\<rfloor>; r = x - of_int f
      in if r < 1 / 2 then f
         else if 1 / 2 < r then f + 1
         else if even f then f else f + 1)"

definition round64 :: "rat \<Rightarrow> rat option" where
  "round64 x =
     (if x = 0 then Some 0
      else
        (let a = \<bar>x\<bar>;
             e = max (floor_log2 a) (- 1022);
             q = pow2 (e - 52);
             m = round_even (a / q)
         in if 1023 < e \<or> (e = 1023 \<and> m = 2 ^ 53) then None
            else Some (sgn x * (of_int m * q))))"

text \<open>
  The rationals that are finite JavaScript numbers: those that rounding leaves unchanged.
  A decimal literal such as \<^verbatim>\<open>33.3\<close> denotes the number nearest to it.
\<close>

definition js_number :: "rat \<Rightarrow> bool" where
  "js_number x = (round64 x = Some x)"

text \<open>
  The operators \<^verbatim>\<open>/\<close> and \<^verbatim>\<open>*\<close> on numbers; \<open>None\<close> is a result that is not finite, \<^verbatim>\<open>NaN\<close>
  or an infinity. A division by zero gives \<^verbatim>\<open>NaN\<close> or an infinity, and the product of such
  a value with \<open>100\<close> is again one of them.
\<close>

definition js_div :: "rat \<Rightarrow> rat \<Rightarrow> rat option" where
  "js_div a b = (if b = 0 then None else round64 (a / b))"

definition js_mul :: "rat option \<Rightarrow> rat \<Rightarrow> rat option" where
  "js_mul x b = (case x of None \<Rightarrow> None | Some a \<Rightarrow> round64 (a * b))"

subsection \<open>The language bars\<close>

text \<open>
  \<^verbatim>\<open>hackatimeData?.languages?.filter(...).slice(0, 6) ?? []\<close>
\<close>

definition topLanguages :: "HackatimeData option \<Rightarrow> HackatimeLanguage list" where
  "topLanguages hackatimeData =
     (case hackatimeData of
        None \<Rightarrow> []
      | Some d \<Rightarrow>
          (case languages d of
             None \<Rightarrow> []
           | Some ls \<Rightarrow> take 6 (filter (\<lambda>l. name l \<noteq> ''Other'' \<and> total_seconds l > 0) ls)))"

text \<open>\<^verbatim>\<open>topLanguages.length > 0 ? topLanguages[0].percent : 1\<close>\<close>

definition maxLangPercent :: "HackatimeLanguage list \<Rightarrow> rat" where
  "maxLangPercent tops = (if length tops > 0 then percent (tops ! 0) else 1)"

text \<open>
  The width \<^verbatim>\<open>(lang.percent / maxLangPercent) * 100\<close> of a bar, in percent; \<open>None\<close> when it
  is not a finite number.
\<close>

definition barWidth :: "rat \<Rightarrow> HackatimeLanguage \<Rightarrow> rat option" where
  "barWidth maxPercent lang = js_mul (js_div (percent lang) maxPercent) 100"

text \<open>The widths of the bars of \<^verbatim>\<open>topLanguages.map((lang, i) => ...)\<close>, in order.\<close>

definition barWidths :: "HackatimeData option \<Rightarrow> rat option list" where
  "barWidths hackatimeData =
     (let tops = topLanguages hackatimeData
      in map (barWidth (maxLangPercent tops)) tops)"

text \<open>
  The words of the specification: the retained set is the first six entries left after
  removing those named \<^verbatim>\<open>"Other"\<close> or of zero duration; the list is sorted by percent
  descending; the maximum percent of a non-empty list; a bar width \<open>w\<close> that is the
  number \<open>x\<close> up to the rounding of the arithmetic.
\<close>

definition spec_retained :: "HackatimeLanguage list \<Rightarrow> HackatimeLanguage list" where
  "spec_retained ls = take 6 (filter (\<lambda>l. \<not> (name l = ''Other'' \<or> total_seconds l = 0)) ls)"

definition percent_descending :: "HackatimeLanguage list \<Rightarrow> bool" where
  "percent_descending ls = sorted_wrt (\<lambda>a b. percent b \<le> percent a) ls"

definition spec_max_percent :: "HackatimeLanguage list \<Rightarrow> rat" where
  "spec_max_percent ls = Max (set (map percent ls))"

definition width_near :: "rat option \<Rightarrow> rat \<Rightarrow> bool" where
  "width_near w x = (case w of None \<Rightarrow> False | Some y \<Rightarrow> \<bar>y - x\<bar> \<le> 1 / 2 ^ 45)"

text \<open>Test data: statistics that hold a given language list, and a language entry.\<close>

definition stats_of :: "HackatimeLanguage list \<Rightarrow> HackatimeData" where
  "stats_of ls = \<lparr>total_seconds' = sum_list (map total_seconds ls), daily_average = 0,
     languages = Some ls, human_readable_total = None, human_readable_daily_average = None,
     human_readable_range = None, streak = None, start = None\<rparr>"

definition lang :: "string \<Rightarrow> rat \<Rightarrow> rat \<Rightarrow> HackatimeLanguage" where
  "lang n s p = \<lparr>name = n, total_seconds = s, percent = p, text' = [], color' = None\<rparr>"

definition spec_languages :: "HackatimeLanguage list" where
  "spec_languages =
     [lang ''Other'' 100 10, lang ''Go'' 500 50, lang ''Rust'' 300 30, lang ''TS'' 200 20]"

definition sorted_languages :: "HackatimeLanguage list" where
  "sorted_languages =
     [lang ''Go'' 500 50, lang ''Rust'' 300 30, lang ''Other'' 120 12, lang ''TS'' 70 7, lang ''C'' 0 0]"

section \<open>The route handlers\<close>

subsection \<open>JSON values\<close>

text \<open>
  A parsed JSON document. Numbers are exact rationals. An object is the list of its
  members in document order; \<^verbatim>\<open>JSON.parse\<close> keeps the last of several members with one
  key.
\<close>

datatype json =
    JNull
  | JBool bool
  | JNumber rat
  | JString string
  | JArray "json list"
  | JObject "(string \<times> json) list"

text \<open>Whether a value counts as true in \<^verbatim>\<open>a || b\<close> and \<^verbatim>\<open>if (a)\<close>.\<close>

fun truthy :: "json \<Rightarrow> bool" where
  "truthy JNull = False"
| "truthy (JBool b) = b"
| "truthy (JNumber n) = (n \<noteq> 0)"
| "truthy (JString s) = (s \<noteq> [])"
| "truthy (JArray _) = True"
| "truthy (JObject _) = True"

text \<open>
  \<open>field v k\<close> is the member \<open>k\<close> of an object, \<open>None\<close> when \<open>v\<close> has no such member or is
  not an object. \<open>get_property v k\<close> is the expression \<^verbatim>\<open>v.k\<close> for the keys the handlers
  read (none is a property that arrays, strings, numbers or booleans have of their own):
  it throws a \<^verbatim>\<open>TypeError\<close> on \<^verbatim>\<open>null\<close> and is \<^verbatim>\<open>undefined\<close>, here \<open>None\<close>, where there is no
  such member. \<open>get_path\<close> is a chain \<^verbatim>\<open>v.k1.k2...\<close>, which throws when it reads a property
  of \<^verbatim>\<open>undefined\<close>.
\<close>

fun field :: "json \<Rightarrow> string \<Rightarrow> json option" where
  "field (JObject kvs) k = map_of (rev kvs) k"
| "field _ k = None"

fun get_property :: "json \<Rightarrow> string \<Rightarrow> js_error + json option" where
  "get_property JNull k = Inl TypeError"
| "get_property v k = Inr (field v k)"

fun get_path :: "json \<Rightarrow> string list \<Rightarrow> js_error + json option" where
  "get_path v [] = Inr (Some v)"
| "get_path v (k # ks) =
     (case get_property v k of
        Inl e \<Rightarrow> Inl e
      | Inr None \<Rightarrow> (if ks = [] then Inr None else Inl TypeError)
      | Inr (Some v') \<Rightarrow> get_path v' ks)"

subsection \<open>Configuration, requests and responses\<close>

text \<open>
  The environment variables the handlers read; a variable that is not set is \<open>None\<close>.
  \<open>configured v\<close> is the test \<^verbatim>\<open>!v\<close> negated: the variable is set and not empty.
\<close>

record Env =
  GITHUB_TOKEN :: "string option"
  HACKATIME_USERNAME :: "string option"
  HACKATIME_API_KEY :: "string option"

definition configured :: "string option \<Rightarrow> bool" where
  "configured v = (case v of None \<Rightarrow> False | Some s \<Rightarrow> s \<noteq> [])"

text \<open>
  A call of \<^verbatim>\<open>fetch\<close>: the URL and the options passed. The JSON text of a request body is
  modelled by the document it encodes. The network is a function from the call to its
  outcome: the promise rejects, or it resolves to a response with its \<^verbatim>\<open>ok\<close> flag, status
  and body, the body being \<open>None\<close> when it is not JSON (then \<^verbatim>\<open>response.json()\<close> rejects).
  A handler returns the response it sends, or the error it throws without catching,
  together with the calls of \<^verbatim>\<open>fetch\<close> it has made, in order. Logging is not modelled.
\<close>

record FetchCall =
  url :: string
  http_method :: string
  headers :: "(string \<times> string) list"
  body :: "json option"
  revalidate :: int

record UpstreamResponse =
  ok :: bool
  upstream_status :: int
  payload :: "json option"

datatype fetch_outcome = Rejects | Resolves UpstreamResponse

record HttpResponse =
  status :: int
  json_body :: json

type_synonym handler_result = "(js_error + HttpResponse) \<times> FetchCall list"

text \<open>\<^verbatim>\<open>NextResponse.json({ error: msg }, { status: 500 })\<close> and \<^verbatim>\<open>NextResponse.json(v)\<close>\<close>

definition error_response :: "string \<Rightarrow> HttpResponse" where
  "error_response msg = \<lparr>status = 500, json_body = JObject [(''error'', JString msg)]\<rparr>"

definition json_response :: "json \<Rightarrow> HttpResponse" where
  "json_response v = \<lparr>status = 200, json_body = v\<rparr>"

subsection \<open>\<^verbatim>\<open>GET\<close> of the time-tracking route\<close>

definition HACKATIME_BASE_URL :: string where
  "HACKATIME_BASE_URL = ''https://hackatime.hackclub.com/api/v1''"

text \<open>
  \<^verbatim>\<open>searchParams.get("range") || "all_time"\<close>, on the value of the query parameter
  (\<open>None\<close> when the URL has none).
\<close>

definition rangeParam :: "string option \<Rightarrow> string" where
  "rangeParam p = (case p of None \<Rightarrow> ''all_time'' | Some r \<Rightarrow> if r \<noteq> [] then r else ''all_time'')"

text \<open>The call of \<^verbatim>\<open>fetch\<close> the handler makes: the URL, and the headers with the optional key.\<close>

definition hackatime_call :: "string \<Rightarrow> string option \<Rightarrow> DateRange \<Rightarrow> FetchCall" where
  "hackatime_call username apiKey dr =
     \<lparr>url = HACKATIME_BASE_URL @ ''/users/'' @ username @
            ''/stats?start_date='' @ start_date dr @ ''&end_date='' @ end_date dr,
      http_method = ''GET'',
      headers = (''Content-Type'', ''application/json'') #
                (case apiKey of
                   None \<Rightarrow> []
                 | Some k \<Rightarrow> if k \<noteq> [] then [(''Authorization'', ''Bearer '' @ k)] else []),
      body = None,
      revalidate = 3600\<rparr>"

text \<open>The values of the two required variables, once they are known to be set.\<close>

definition username_of :: "Env \<Rightarrow> string" where
  "username_of env = (case HACKATIME_USERNAME env of None \<Rightarrow> [] | Some u \<Rightarrow> u)"

definition token_of :: "Env \<Rightarrow> string" where
  "token_of env = (case GITHUB_TOKEN env of None \<Rightarrow> [] | Some t \<Rightarrow> t)"

text \<open>\<^verbatim>\<open>responseData.data || responseData\<close>\<close>

definition hackatime_stats :: "json \<Rightarrow> js_error + json" where
  "hackatime_stats responseData =
     (case get_property responseData ''data'' of
        Inl e \<Rightarrow> Inl e
      | Inr None \<Rightarrow> Inr responseData
      | Inr (Some d) \<Rightarrow> Inr (if truthy d then d else responseData))"

text \<open>
  The handler. \<^verbatim>\<open>getDateRange\<close> is called before the \<^verbatim>\<open>try\<close> block, so an error it throws
  is not caught; every error inside the block ends in the same response. \<open>tza\<close> is the
  zone of the host, and \<open>now1\<close> and \<open>now2\<close> are the two readings of the clock that
  \<^verbatim>\<open>getDateRange\<close> takes, in that order.
\<close>

definition GET_hackatime ::
  "Env \<Rightarrow> zone \<Rightarrow> int \<Rightarrow> int \<Rightarrow> (FetchCall \<Rightarrow> fetch_outcome) \<Rightarrow> string option \<Rightarrow>
     handler_result" where
  "GET_hackatime env tza now1 now2 fetch rangeQuery =
     (if \<not> configured (HACKATIME_USERNAME env)
      then (Inr (error_response ''Hackatime username not configured''), [])
      else
        (case getDateRange tza now1 now2 (rangeParam rangeQuery) of
           Inl e \<Rightarrow> (Inl e, [])
         | Inr dr \<Rightarrow>
             (let call = hackatime_call (username_of env) (HACKATIME_API_KEY env) dr;
                  failed = error_response ''Failed to fetch Hackatime data''
              in (case fetch call of
                    Rejects \<Rightarrow> Inr failed
                  | Resolves response \<Rightarrow>
                      if \<not> ok response then Inr failed
                      else (case payload response of
                              None \<Rightarrow> Inr failed
                            | Some responseData \<Rightarrow>
                                (case hackatime_stats responseData of
                                   Inl e \<Rightarrow> Inr failed
                                 | Inr stats \<Rightarrow> Inr (json_response stats))),
                  [call]))))"

subsection \<open>\<^verbatim>\<open>GET\<close> of the contribution-calendar route\<close>

definition GITHUB_GRAPHQL_URL :: string where
  "GITHUB_GRAPHQL_URL = ''https://api.github.com/graphql''"

definition GITHUB_USERNAME :: string where
  "GITHUB_USERNAME = ''Shyamsaitejamandibi''"

definition query :: string where
  "query = ''\<newline>  query($username: String!) {\<newline>    user(login: $username) {\<newline>      contributionsCollection {\<newline>        contributionCalendar {\<newline>          totalContributions\<newline>          weeks {\<newline>            contributionDays {\<newline>              contributionCount\<newline>              date\<newline>              color\<newline>              weekday\<newline>            }\<newline>          }\<newline>        }\<newline>      }\<newline>    }\<newline>  }\<newline>''"

definition github_call :: "string \<Rightarrow> FetchCall" where
  "github_call token =
     \<lparr>url = GITHUB_GRAPHQL_URL,
      http_method = ''POST'',
      headers = [(''Authorization'', ''Bearer '' @ token),
                 (''Content-Type'', ''application/json'')],
      body = Some (JObject [(''query'', JString query),
                            (''variables'', JObject [(''username'', JString GITHUB_USERNAME)])]),
      revalidate = 3600\<rparr>"

text \<open>
  The part of the \<^verbatim>\<open>try\<close> block after \<^verbatim>\<open>response.json()\<close>: a truthy \<^verbatim>\<open>data.errors\<close> throws,
  and so does a calendar that is \<^verbatim>\<open>undefined\<close>, which \<^verbatim>\<open>NextResponse.json\<close> cannot encode.
\<close>

definition github_calendar :: "json \<Rightarrow> js_error + json" where
  "github_calendar data =
     (case get_property data ''errors'' of
        Inl e \<Rightarrow> Inl e
      | Inr errors \<Rightarrow>
          if (case errors of None \<Rightarrow> False | Some e \<Rightarrow> truthy e) then Inl GenericError
          else (case get_path data [''data'', ''user'', ''contributionsCollection'',
                                    ''contributionCalendar''] of
                  Inl e \<Rightarrow> Inl e
                | Inr None \<Rightarrow> Inl TypeError
                | Inr (Some calendar) \<Rightarrow> Inr calendar))"

definition GET_github :: "Env \<Rightarrow> (FetchCall \<Rightarrow> fetch_outcome) \<Rightarrow> handler_result" where
  "GET_github env fetch =
     (if \<not> configured (GITHUB_TOKEN env)
      then (Inr (error_response ''GitHub token not configured''), [])
      else
        (let call = github_call (token_of env);
             failed = error_response ''Failed to fetch GitHub data''
         in (case fetch call of
               Rejects \<Rightarrow> Inr failed
             | Resolves response \<Rightarrow>
                 if \<not> ok response then Inr failed
                 else (case payload response of
                         None \<Rightarrow> Inr failed
                       | Some data \<Rightarrow>
                           (case github_calendar data of
                              Inl e \<Rightarrow> Inr failed
                            | Inr calendar \<Rightarrow> Inr (json_response calendar))),
             [call])))"

text \<open>
  Test data: a complete configuration, an upstream that answers every call with a given
  JSON document, a clock reading (2024-03-15T10:53:20Z), and two payloads.
\<close>

definition test_env :: Env where
  "test_env = \<lparr>GITHUB_TOKEN = Some ''ghp_token'', HACKATIME_USERNAME = Some ''shyam'',
                HACKATIME_API_KEY = None\<rparr>"

definition answers :: "json \<Rightarrow> FetchCall \<Rightarrow> fetch_outcome" where
  "answers p call = Resolves \<lparr>ok = True, upstream_status = 200, payload = Some p\<rparr>"


text \<open>
  Clock readings: 2024-03-15T10:53:20Z; noon of 2024-08-31, a day that February lacks;
  2024-03-15T23:30:00Z, five days after the change of \<open>dst_zone\<close>; the last
  millisecond of 2024-01-31 with the first of 2024-02-01; and 2024-02-29T20:30:00Z, which
  is 02:00 of 2024-03-01 in \<open>india_zone\<close>.
\<close>

definition clock_2024 :: int where
  "clock_2024 = 1710500000000"

definition clock_aug31 :: int where
  "clock_aug31 = 1725105600000"

definition clock_after_change :: int where
  "clock_after_change = 1710545400000"

definition clock_before_midnight :: int where
  "clock_before_midnight = 1706745599999"

definition clock_midnight :: int where
  "clock_midnight = 1706745600000"

definition clock_feb29 :: int where
  "clock_feb29 = 1709238600000"

definition wrapped_stats :: json where
  "wrapped_stats = JObject [(''data'', JObject [(''total_seconds'', JNumber 3600)])]"

definition bare_stats :: json where
  "bare_stats = JObject [(''total_seconds'', JNumber 3600)]"

section \<open>The component \<^verbatim>\<open>DeveloperActivitySection\<close>\<close>

text \<open>
  The state cells of the component (its \<^verbatim>\<open>useState\<close> hooks), as one record. The tooltip's
  fields \<^verbatim>\<open>text\<close>, \<^verbatim>\<open>x\<close>, \<^verbatim>\<open>y\<close> are \<open>tip_text\<close>, \<open>tip_x\<close>, \<open>tip_y\<close>, and the field \<^verbatim>\<open>weeks\<close>
  of \<^verbatim>\<open>GitHubData\<close> is \<open>weeks'\<close>.
\<close>

record GitHubData =
  totalContributions :: int
  weeks' :: "GitHubContributionWeek list"

record Tooltip =
  tip_text :: string
  tip_x :: rat
  tip_y :: rat

record ActivityState =
  githubData :: "GitHubData option"
  hackatimeData :: "HackatimeData option"
  loadingGithub :: bool
  loadingHackatime :: bool
  errorGithub :: bool
  errorHackatime :: bool
  activeRange :: string
  tooltip :: "Tooltip option"

text \<open>The initial values given to \<^verbatim>\<open>useState\<close>.\<close>

definition initialState :: ActivityState where
  "initialState =
     \<lparr>githubData = None, hackatimeData = None, loadingGithub = True, loadingHackatime = True,
      errorGithub = False, errorHackatime = False, activeRange = ''last_year'', tooltip = None\<rparr>"

text \<open>
  \<^verbatim>\<open>fetchHackatime(range)\<close> up to the point where the request is under way: the three
  state updates, and the request it issues. A function of the component returns the new
  state together with the URLs it has passed to \<^verbatim>\<open>fetch\<close>, in order.
\<close>

definition fetchHackatime :: "ActivityState \<Rightarrow> string \<Rightarrow> ActivityState \<times> string list" where
  "fetchHackatime st range' =
     (st\<lparr>loadingHackatime := True, errorHackatime := False, hackatimeData := None\<rparr>,
      [''/api/hackatime?range='' @ range'])"

text \<open>
  \<^verbatim>\<open>useEffect(() => { fetchHackatime(activeRange) }, [activeRange, fetchHackatime])\<close> after
  a render: \<^verbatim>\<open>fetchHackatime\<close> is a \<^verbatim>\<open>useCallback\<close> without dependencies and never changes,
  so the effect runs when \<^verbatim>\<open>activeRange\<close> differs from its value \<open>prev\<close> at the render
  before.
\<close>

definition rangeEffect :: "ActivityState \<Rightarrow> ActivityState \<Rightarrow> ActivityState \<times> string list" where
  "rangeEffect prev st =
     (if activeRange st \<noteq> activeRange prev then fetchHackatime st (activeRange st) else (st, []))"

text \<open>
  \<^verbatim>\<open>handleRangeChange(range)\<close>, followed by the effects of the render that
  \<^verbatim>\<open>setActiveRange\<close> causes. The early \<^verbatim>\<open>return\<close> updates no state, so no render follows.
\<close>

definition handleRangeChange :: "ActivityState \<Rightarrow> string \<Rightarrow> ActivityState \<times> string list" where
  "handleRangeChange st range' =
     (if range' = activeRange st then (st, [])
      else rangeEffect st (st\<lparr>activeRange := range'\<rparr>))"

text \<open>The two ways a time-tracking request ends: the \<^verbatim>\<open>then\<close> and the \<^verbatim>\<open>catch\<close> callback.\<close>

definition hackatimeResolved :: "ActivityState \<Rightarrow> HackatimeData \<Rightarrow> ActivityState" where
  "hackatimeResolved st d = st\<lparr>hackatimeData := Some d, loadingHackatime := False\<rparr>"

definition hackatimeRejected :: "ActivityState \<Rightarrow> ActivityState" where
  "hackatimeRejected st = st\<lparr>errorHackatime := True, loadingHackatime := False\<rparr>"

text \<open>Mounting the component runs both effects once.\<close>

definition mount :: "ActivityState \<times> string list" where
  "mount = (let (st, fetches) = fetchHackatime initialState (activeRange initialState)
            in (st, ''/api/github'' # fetches))"

text \<open>
  Test data: the state after the first time-tracking request has delivered statistics,
  and the state after it has failed.
\<close>

definition empty_stats :: HackatimeData where
  "empty_stats = \<lparr>total_seconds' = 0, daily_average = 0, languages = Some [],
     human_readable_total = None, human_readable_daily_average = None,
     human_readable_range = None, streak = None, start = None\<rparr>"

definition loaded_state :: ActivityState where
  "loaded_state = hackatimeResolved (fst mount) empty_stats"

definition failed_state :: ActivityState where
  "failed_state = hackatimeRejected (fst mount)"

section \<open>Streaks\<close>

lemma trailing_snoc: "spec_trailing_run (xs @ [x]) = (if active x then Suc (spec_trailing_run xs) else 0)"
  by (simp add: spec_trailing_run_def)

lemma active_runs_nonempty: "[] \<in> set (active_runs days)"
  by (simp add: active_runs_def)

lemma in_active_runs: "r \<in> set (active_runs days) \<longleftrightarrow> sublist r days \<and> list_all active r"
  by (auto simp: active_runs_def)

lemma suffix_active_le:
  assumes "suffix r xs" and "list_all active r"
  shows "length r \<le> spec_trailing_run xs"
proof -
  from assms(1) obtain ps where xs: "xs = ps @ r" by (auto simp: suffix_def)
  have "\<forall>d \<in> set (rev r). active d" using assms(2) by (simp add: list_all_iff)
  then have "takeWhile active (rev r @ rev ps) = rev r @ takeWhile active (rev ps)"
    by (intro takeWhile_append2) simp
  then show ?thesis by (simp add: spec_trailing_run_def xs)
qed

lemma trailing_run_is_run:
  "rev (takeWhile active (rev xs)) \<in> set (active_runs xs)"
proof -
  have "suffix (rev (takeWhile active (rev xs))) xs"
    by (metis rev_rev_ident suffix_to_prefix takeWhile_is_prefix)
  moreover have "list_all active (rev (takeWhile active (rev xs)))"
    by (auto simp: list_all_iff dest: set_takeWhileD)
  ultimately show ?thesis by (simp add: in_active_runs)
qed

lemma spec_longest_run_ge: "r \<in> set (active_runs days) \<Longrightarrow> length r \<le> spec_longest_run days"
  by (simp add: spec_longest_run_def)

lemma spec_longest_run_attained: "\<exists>r \<in> set (active_runs days). length r = spec_longest_run days"
proof -
  have "Max (set (map length (active_runs days))) \<in> set (map length (active_runs days))"
    using active_runs_nonempty [of days] by (intro Max_in) auto
  then show ?thesis by (auto simp: spec_longest_run_def)
qed

lemma spec_longest_runI:
  assumes "r \<in> set (active_runs days)" and "length r = m"
    and "\<And>r'. r' \<in> set (active_runs days) \<Longrightarrow> length r' \<le> m"
  shows "spec_longest_run days = m"
  using assms spec_longest_run_ge [OF assms(1)] spec_longest_run_attained [of days]
  by (metis le_antisym)

lemma max_run_snoc:
  "spec_longest_run (xs @ [x]) = max (spec_longest_run xs) (spec_trailing_run (xs @ [x]))"
proof -
  obtain r where r: "r \<in> set (active_runs xs)" "length r = spec_longest_run xs"
    using spec_longest_run_attained by blast
  let ?t = "rev (takeWhile active (rev (xs @ [x])))"
  have t: "?t \<in> set (active_runs (xs @ [x]))" "length ?t = spec_trailing_run (xs @ [x])"
    using trailing_run_is_run [of "xs @ [x]"] by (simp_all add: spec_trailing_run_def)
  have r': "r \<in> set (active_runs (xs @ [x]))"
    using r(1) by (simp add: in_active_runs sublist_snoc)
  have ub: "length r' \<le> max (spec_longest_run xs) (spec_trailing_run (xs @ [x]))"
    if "r' \<in> set (active_runs (xs @ [x]))" for r'
  proof -
    from that have act: "list_all active r'"
      by (simp add: in_active_runs)
    from that have "suffix r' (xs @ [x]) \<or> sublist r' xs"
      by (simp add: in_active_runs sublist_snoc)
    then show ?thesis
    proof
      assume "suffix r' (xs @ [x])"
      from suffix_active_le [OF this act] show ?thesis by simp
    next
      assume "sublist r' xs"
      with act have "r' \<in> set (active_runs xs)" by (simp add: in_active_runs)
      from spec_longest_run_ge [OF this] show ?thesis by simp
    qed
  qed
  show ?thesis
  proof (cases "spec_longest_run xs \<le> spec_trailing_run (xs @ [x])")
    case True
    then show ?thesis using spec_longest_runI [OF t(1)] t(2) ub by (simp add: max_def)
  next
    case False
    then show ?thesis using spec_longest_runI [OF r'] r(2) ub by (simp add: max_def)
  qed
qed

lemma spec_longest_run_Nil: "spec_longest_run [] = 0"
  by (simp add: spec_longest_run_def active_runs_def)

lemma forward_loop_eq:
  "foldl forward_step (0, 0) days = (int (spec_longest_run days), int (spec_trailing_run days))"
proof (induction days rule: rev_induct)
  case Nil
  then show ?case by (simp add: spec_longest_run_Nil spec_trailing_run_def)
next
  case (snoc x xs)
  show ?case
    by (simp add: snoc.IH max_run_snoc [of xs x] trailing_snoc active_def of_nat_max ac_simps)
qed

lemma backward_loop_eq:
  "i \<le> length xs \<Longrightarrow> backward_loop xs i c = c + int (length (takeWhile active (rev (take i xs))))"
  apply (induction i arbitrary: c)
   apply simp
  apply (simp add: take_Suc_conv_app_nth active_def)
  done

lemma current_eq: "backward_loop xs (length xs) 0 = int (spec_trailing_run xs)"
  by (simp add: backward_loop_eq spec_trailing_run_def)

lemma computeGitHubStreaks_eq:
  "computeGitHubStreaks weeks =
     \<lparr>currentStreak = int (spec_trailing_run (flatDays weeks)),
      longestStreak = int (spec_longest_run (flatDays weeks))\<rparr>"
  by (simp add: computeGitHubStreaks_def Let_def forward_loop_eq current_eq)

lemma spec_trailing_le_longest: "spec_trailing_run days \<le> spec_longest_run days"
  using spec_longest_run_ge [OF trailing_run_is_run [of days]]
  by (simp add: spec_trailing_run_def)

lemma no_active_runs:
  assumes "\<forall>d \<in> set days. \<not> active d"
  shows "spec_longest_run days = 0" and "spec_trailing_run days = 0"
proof -
  have "r = []" if "r \<in> set (active_runs days)" for r
  proof (cases r)
    case Nil
    then show ?thesis .
  next
    case (Cons d r')
    with that have "d \<in> set days" and "active d"
      using set_mono_sublist [of r days] by (auto simp: in_active_runs)
    with assms show ?thesis by blast
  qed
  then have "\<And>r'. r' \<in> set (active_runs days) \<Longrightarrow> length r' \<le> 0" by auto
  from spec_longest_runI [OF active_runs_nonempty _ this] show "spec_longest_run days = 0"
    by simp
  with spec_trailing_le_longest [of days] show "spec_trailing_run days = 0" by simp
qed

text \<open>
  Claim C1. For every week sequence, with \<open>days\<close> the flattened chronological day
  sequence, \<^verbatim>\<open>computeGitHubStreaks\<close> returns as \<^verbatim>\<open>longestStreak\<close> the maximum length of a
  run of consecutive days with a positive count (\<open>0\<close> when no day has one), and as
  \<^verbatim>\<open>currentStreak\<close> the number of consecutive days with a positive count at the end of the
  sequence, counted backward up to the first day without one or to the start. When the
  counts are \<open>[1,0,2,3,0,0,5]\<close> the result is \<open>longestStreak = 2\<close>, \<open>currentStreak = 1\<close>, and
  when no day has a positive count both are \<open>0\<close>.
\<close>

theorem computeGitHubStreaks_runs:
  "longestStreak (computeGitHubStreaks weeks) = int (spec_longest_run (flatDays weeks)) \<and>
   currentStreak (computeGitHubStreaks weeks) = int (spec_trailing_run (flatDays weeks)) \<and>
   (map contributionCount (flatDays weeks) = [1, 0, 2, 3, 0, 0, 5] \<longrightarrow>
      longestStreak (computeGitHubStreaks weeks) = 2 \<and>
      currentStreak (computeGitHubStreaks weeks) = 1) \<and>
   ((\<forall>d \<in> set (flatDays weeks). \<not> 0 < contributionCount d) \<longrightarrow>
      longestStreak (computeGitHubStreaks weeks) = 0 \<and>
      currentStreak (computeGitHubStreaks weeks) = 0)"
proof (intro conjI impI)
  show l: "longestStreak (computeGitHubStreaks weeks) = int (spec_longest_run (flatDays weeks))"
    by (simp add: computeGitHubStreaks_eq)
  show c: "currentStreak (computeGitHubStreaks weeks) = int (spec_trailing_run (flatDays weeks))"
    by (simp add: computeGitHubStreaks_eq)
  {
    assume "map contributionCount (flatDays weeks) = [1, 0, 2, 3, 0, 0, 5]"
    then obtain d1 d2 d3 d4 d5 d6 d7 where ds: "flatDays weeks = [d1, d2, d3, d4, d5, d6, d7]"
      and cs: "contributionCount d1 = 1" "contributionCount d2 = 0" "contributionCount d3 = 2"
        "contributionCount d4 = 3" "contributionCount d5 = 0" "contributionCount d6 = 0"
        "contributionCount d7 = 5"
      by (auto simp: map_eq_Cons_conv)
    then show "longestStreak (computeGitHubStreaks weeks) = 2"
      and "currentStreak (computeGitHubStreaks weeks) = 1"
      by (simp_all add: computeGitHubStreaks_def Let_def)
  }
  {
    assume "\<forall>d \<in> set (flatDays weeks). \<not> 0 < contributionCount d"
    then have "\<forall>d \<in> set (flatDays weeks). \<not> active d" by (simp add: active_def)
    from no_active_runs [OF this] l c
    show "longestStreak (computeGitHubStreaks weeks) = 0"
      and "currentStreak (computeGitHubStreaks weeks) = 0"
      by simp_all
  }
qed

theorem computeGitHubStreaks_runs_witness:
  "map contributionCount (flatDays [week_of_counts [1, 0, 2, 3], week_of_counts [0, 0, 5]])
     = [1, 0, 2, 3, 0, 0, 5] \<and>
   computeGitHubStreaks [week_of_counts [1, 0, 2, 3], week_of_counts [0, 0, 5]]
     = \<lparr>currentStreak = 1, longestStreak = 2\<rparr> \<and>
   map contributionCount (flatDays [week_of_counts [0, 0], week_of_counts []]) = [0, 0] \<and>
   computeGitHubStreaks [week_of_counts [0, 0], week_of_counts []]
     = \<lparr>currentStreak = 0, longestStreak = 0\<rparr>"
proof -
  have a: "map contributionCount (flatDays [week_of_counts [1, 0, 2, 3], week_of_counts [0, 0, 5]])
     = [1, 0, 2, 3, 0, 0, 5]"
    by (simp add: flatDays_def week_of_counts_def day_of_count_def)
  have b: "\<forall>d \<in> set (flatDays [week_of_counts [0, 0], week_of_counts []]).
     \<not> 0 < contributionCount d"
    by (simp add: flatDays_def week_of_counts_def day_of_count_def)
  have c: "map contributionCount (flatDays [week_of_counts [0, 0], week_of_counts []]) = [0, 0]"
    by (simp add: flatDays_def week_of_counts_def day_of_count_def)
  from a b c
    computeGitHubStreaks_runs [of "[week_of_counts [1, 0, 2, 3], week_of_counts [0, 0, 5]]"]
    computeGitHubStreaks_runs [of "[week_of_counts [0, 0], week_of_counts []]"]
  show ?thesis by (simp add: StreakSummary.equality)
qed

text \<open>
  Claim C10. For every week sequence the two streaks returned by
  \<^verbatim>\<open>computeGitHubStreaks\<close> are non-negative and \<^verbatim>\<open>currentStreak\<close> is at most
  \<^verbatim>\<open>longestStreak\<close>: the days counted by \<^verbatim>\<open>currentStreak\<close> form one of the runs over which
  \<^verbatim>\<open>longestStreak\<close> is the maximum.
\<close>

theorem computeGitHubStreaks_current_le_longest:
  "0 \<le> currentStreak (computeGitHubStreaks weeks) \<and>
   0 \<le> longestStreak (computeGitHubStreaks weeks) \<and>
   currentStreak (computeGitHubStreaks weeks) \<le> longestStreak (computeGitHubStreaks weeks) \<and>
   rev (takeWhile active (rev (flatDays weeks))) \<in> set (active_runs (flatDays weeks)) \<and>
   currentStreak (computeGitHubStreaks weeks)
     = int (length (rev (takeWhile active (rev (flatDays weeks)))))"
  using spec_trailing_le_longest [of "flatDays weeks"] trailing_run_is_run [of "flatDays weeks"]
  by (simp add: computeGitHubStreaks_eq spec_trailing_run_def)

theorem computeGitHubStreaks_current_le_longest_witness:
  "computeGitHubStreaks [week_of_counts [4, 1, 0, 2], week_of_counts [7, 0, 1, 1]]
     = \<lparr>currentStreak = 2, longestStreak = 2\<rparr> \<and>
   computeGitHubStreaks [week_of_counts [4, 1, 1, 2], week_of_counts [7, 0, 0, 1]]
     = \<lparr>currentStreak = 1, longestStreak = 5\<rparr>"
  using computeGitHubStreaks_current_le_longest
          [of "[week_of_counts [4, 1, 0, 2], week_of_counts [7, 0, 1, 1]]"]
  by (simp add: computeGitHubStreaks_def flatDays_def week_of_counts_def day_of_count_def)

section \<open>Activity levels\<close>

lemma getGitHubLevel_mono: "0 \<le> c \<Longrightarrow> c \<le> c' \<Longrightarrow> getGitHubLevel c \<le> getGitHubLevel c'"
  by (simp add: getGitHubLevel_def)

text \<open>
  Claim C2. For every non-negative integer count \<open>c\<close>, \<^verbatim>\<open>getGitHubLevel\<close> gives \<open>0\<close> for
  \<open>c = 0\<close>, \<open>1\<close> for \<open>1 \<le> c \<le> 3\<close>, \<open>2\<close> for \<open>4 \<le> c \<le> 6\<close>, \<open>3\<close> for \<open>7 \<le> c \<le> 9\<close> and \<open>4\<close> for
  \<open>c \<ge> 10\<close>; so its value lies in \<open>{0,1,2,3,4}\<close> and it is monotonically non-decreasing
  on the non-negative integers.
\<close>

theorem getGitHubLevel_thresholds:
  assumes "0 \<le> c"
  shows "(c = 0 \<longrightarrow> getGitHubLevel c = 0) \<and>
         (1 \<le> c \<and> c \<le> 3 \<longrightarrow> getGitHubLevel c = 1) \<and>
         (4 \<le> c \<and> c \<le> 6 \<longrightarrow> getGitHubLevel c = 2) \<and>
         (7 \<le> c \<and> c \<le> 9 \<longrightarrow> getGitHubLevel c = 3) \<and>
         (10 \<le> c \<longrightarrow> getGitHubLevel c = 4) \<and>
         getGitHubLevel c \<in> {0, 1, 2, 3, 4} \<and>
         (\<forall>c'. c \<le> c' \<longrightarrow> getGitHubLevel c \<le> getGitHubLevel c')"
  using assms getGitHubLevel_mono [OF assms]
  by (simp add: getGitHubLevel_def)

theorem getGitHubLevel_thresholds_witness:
  "(0::int) \<le> 5 \<and> getGitHubLevel 0 = 0 \<and> getGitHubLevel 3 = 1 \<and> getGitHubLevel 4 = 2 \<and>
   getGitHubLevel 5 = 2 \<and> getGitHubLevel 6 = 2 \<and> getGitHubLevel 7 = 3 \<and> getGitHubLevel 9 = 3 \<and>
   getGitHubLevel 10 = 4 \<and> getGitHubLevel 5 \<le> getGitHubLevel 8"
proof -
  have h: "(0::int) \<le> 5" by simp
  from getGitHubLevel_thresholds [OF h] h show ?thesis
    by (simp add: getGitHubLevel_def)
qed

section \<open>Calendar arithmetic\<close>

lemma div_step:
  fixes y k :: int
  assumes "0 < k"
  shows "y div k = (y - 1) div k + (if y mod k = 0 then 1 else 0)"
proof (cases "y mod k = 0")
  case True
  have "y - 1 = k * (y div k - 1) + (k - 1)"
    using mult_div_mod_eq [of k y] True by (simp add: algebra_simps)
  from int_div_pos_eq [OF this] assms have "(y - 1) div k = y div k - 1" by simp
  with True show ?thesis by simp
next
  case False
  with assms have "0 < y mod k" and "y mod k < k"
    using pos_mod_sign [of k y] pos_mod_bound [of k y] by linarith+
  moreover have "y - 1 = k * (y div k) + (y mod k - 1)"
    using mult_div_mod_eq [of k y] by simp
  ultimately have "(y - 1) div k = y div k"
    by (intro int_div_pos_eq [of "y - 1" k "y div k" "y mod k - 1"]) simp_all
  with False show ?thesis by simp
qed

lemma shift_mod: "(y - c * k) mod k = y mod k" for y c k :: int
  by (metis diff_conv_add_uminus mod_mult_self1 mult_minus_left)

lemma leap_divs:
  fixes y :: int
  shows "(y - 1968) div 4 = (y - 1969) div 4 + (if y mod 4 = 0 then 1 else 0)"
    and "(y - 1900) div 100 = (y - 1901) div 100 + (if y mod 100 = 0 then 1 else 0)"
    and "(y - 1600) div 400 = (y - 1601) div 400 + (if y mod 400 = 0 then 1 else 0)"
proof -
  show "(y - 1968) div 4 = (y - 1969) div 4 + (if y mod 4 = 0 then 1 else 0)"
    using div_step [of 4 "y - 1968"] shift_mod [of y 492 4] by simp
  show "(y - 1900) div 100 = (y - 1901) div 100 + (if y mod 100 = 0 then 1 else 0)"
    using div_step [of 100 "y - 1900"] shift_mod [of y 19 100] by simp
  show "(y - 1600) div 400 = (y - 1601) div 400 + (if y mod 400 = 0 then 1 else 0)"
    using div_step [of 400 "y - 1600"] shift_mod [of y 4 400] by simp
qed

lemma mod_4_100_400:
  fixes y :: int
  shows "y mod 100 = 0 \<Longrightarrow> y mod 4 = 0" and "y mod 400 = 0 \<Longrightarrow> y mod 100 = 0"
proof -
  have d1: "(4::int) dvd 100" by (rule dvdI [of _ _ 25]) simp
  have d2: "(100::int) dvd 400" by (rule dvdI [of _ _ 4]) simp
  show "y mod 4 = 0" if "y mod 100 = 0"
    using mod_mod_cancel [OF d1, of y] that by simp
  show "y mod 100 = 0" if "y mod 400 = 0"
    using mod_mod_cancel [OF d2, of y] that by simp
qed

lemma DayFromYear_Suc: "DayFromYear (y + 1) = DayFromYear y + DaysInYear y"
proof -
  have "DayFromYear (y + 1) =
      365 * (y - 1970) + 365 + (y - 1968) div 4 - (y - 1900) div 100 + (y - 1600) div 400"
    by (simp add: DayFromYear_def algebra_simps)
  then show ?thesis
    using mod_4_100_400 [of y]
    by (auto simp add: leap_divs DayFromYear_def DaysInYear_def)
qed


lemma DaysInYear_bounds: "365 \<le> DaysInYear y" "DaysInYear y \<le> 366"
  by (simp_all add: DaysInYear_def)

termination year_search
proof (relation "measure (\<lambda>(y, d). nat (d + 1 - DayFromYear (y + 1)))")
  show "wf (measure (\<lambda>(y, d). nat (d + 1 - DayFromYear (y + 1))))" by simp
next
  fix y d :: int
  assume "DayFromYear (y + 1) \<le> d"
  moreover have "DayFromYear (y + 1 + 1) = DayFromYear (y + 1) + DaysInYear (y + 1)"
    by (rule DayFromYear_Suc)
  ultimately show "((y + 1, d), (y, d)) \<in> measure (\<lambda>(y, d). nat (d + 1 - DayFromYear (y + 1)))"
    using DaysInYear_bounds(1) [of "y + 1"] by simp
qed

lemma DayFromYear_growth:
  "DayFromYear y + 365 * int n \<le> DayFromYear (y + int n) \<and>
   DayFromYear (y + int n) \<le> DayFromYear y + 366 * int n"
proof (induction n)
  case 0
  then show ?case by simp
next
  case (Suc n)
  have "DayFromYear (y + int (Suc n)) = DayFromYear (y + int n) + DaysInYear (y + int n)"
    using DayFromYear_Suc [of "y + int n"] by (simp add: ac_simps)
  with Suc DaysInYear_bounds [of "y + int n"] show ?case by simp
qed

lemma DayFromYear_strict_mono:
  assumes "y < y'"
  shows "DayFromYear y < DayFromYear y'"
proof -
  define n where "n = nat (y' - y)"
  with assms have y': "y' = y + int n" and "0 < n" by simp_all
  with DayFromYear_growth [of y n] show ?thesis by simp
qed

lemma DayFromYear_mono: "y \<le> y' \<Longrightarrow> DayFromYear y \<le> DayFromYear y'"
  using DayFromYear_strict_mono [of y y'] by (cases "y = y'") simp_all

lemma DayFromYear_1970: "DayFromYear 1970 = 0"
  by (simp add: DayFromYear_def)

lemma year_search_correct:
  "DayFromYear y \<le> d \<Longrightarrow>
     DayFromYear (year_search y d) \<le> d \<and> d < DayFromYear (year_search y d + 1)"
proof (induction y d rule: year_search.induct)
  case (1 y d)
  show ?case
  proof (cases "DayFromYear (y + 1) \<le> d")
    case True
    then have "year_search y d = year_search (y + 1) d"
      by (subst year_search.simps) simp
    with "1.IH" [OF True True] show ?thesis by simp
  next
    case False
    then have "year_search y d = y"
      by (subst year_search.simps) simp
    with False "1.prems" show ?thesis by simp
  qed
qed

lemma year_estimate: "DayFromYear (1970 + (if 0 \<le> d then d div 366 else d div 365)) \<le> d"
proof (cases "0 \<le> d")
  case True
  define q where "q = d div 366"
  define r where "r = d mod 366"
  have "366 * q + r = d" and "0 \<le> r"
    unfolding q_def r_def by (rule mult_div_mod_eq) simp
  moreover have "0 \<le> q" unfolding q_def using True by (simp add: pos_imp_zdiv_nonneg_iff)
  moreover from this DayFromYear_growth [of 1970 "nat q"] have "DayFromYear (1970 + q) \<le> 366 * q"
    by (simp add: DayFromYear_1970)
  ultimately have "DayFromYear (1970 + q) \<le> d" by linarith
  with True show ?thesis by (simp add: q_def)
next
  case False
  define q where "q = d div 365"
  define r where "r = d mod 365"
  have "365 * q + r = d" and "0 \<le> r"
    unfolding q_def r_def by (rule mult_div_mod_eq) simp
  moreover have "q < 0" unfolding q_def using False by (simp add: neg_imp_zdiv_neg_iff)
  moreover from this DayFromYear_growth [of "1970 + q" "nat (- q)"]
  have "DayFromYear (1970 + q) + 365 * (- q) \<le> 0"
    by (simp add: DayFromYear_1970)
  ultimately have "DayFromYear (1970 + q) \<le> d" by linarith
  with False show ?thesis by (simp add: q_def)
qed

lemma YearFromDay_bounds:
  "DayFromYear (YearFromDay d) \<le> d" "d < DayFromYear (YearFromDay d + 1)"
  using year_search_correct [OF year_estimate [of d]] by (simp_all add: YearFromDay_def)

lemma YearFromDay_unique:
  assumes "DayFromYear y \<le> d" and "d < DayFromYear (y + 1)"
  shows "YearFromDay d = y"
proof (rule ccontr)
  assume "YearFromDay d \<noteq> y"
  then consider "YearFromDay d + 1 \<le> y" | "y + 1 \<le> YearFromDay d" by linarith
  then show False
  proof cases
    case 1
    from DayFromYear_mono [OF this] assms(1) YearFromDay_bounds(2) [of d] show False by simp
  next
    case 2
    from DayFromYear_mono [OF this] assms(2) YearFromDay_bounds(1) [of d] show False by simp
  qed
qed

lemma YearFromTime_largest:
  "DayFromYear (YearFromTime t) * msPerDay \<le> t \<and>
   (\<forall>y. DayFromYear y * msPerDay \<le> t \<longrightarrow> y \<le> YearFromTime t)"
proof
  have pos: "0 < msPerDay" by (simp add: msPerDay_def)
  have "Day t * msPerDay + t mod msPerDay = t"
    unfolding Day_def by (rule div_mult_mod_eq)
  with pos_mod_sign [OF pos, of t] pos_mod_bound [OF pos, of t]
  have t: "Day t * msPerDay \<le> t" "t < Day t * msPerDay + msPerDay"
    by linarith+
  have "DayFromYear (YearFromTime t) * msPerDay \<le> Day t * msPerDay"
    using YearFromDay_bounds(1) [of "Day t"] pos by (simp add: YearFromTime_def)
  with t(1) show "DayFromYear (YearFromTime t) * msPerDay \<le> t" by simp
  show "\<forall>y. DayFromYear y * msPerDay \<le> t \<longrightarrow> y \<le> YearFromTime t"
  proof (intro allI impI, rule ccontr)
    fix y
    assume y: "DayFromYear y * msPerDay \<le> t" and "\<not> y \<le> YearFromTime t"
    then have "YearFromTime t + 1 \<le> y" by simp
    from DayFromYear_mono [OF this] YearFromDay_bounds(2) [of "Day t"]
    have "Day t + 1 \<le> DayFromYear y" by (simp add: YearFromTime_def)
    with pos have "(Day t + 1) * msPerDay \<le> DayFromYear y * msPerDay" by simp
    with y t(2) show False by (simp add: algebra_simps)
  qed
qed

lemma msPerDay_pos: "0 < msPerDay"
  by (simp add: msPerDay_def)

lemma TimeWithinDay_range: "0 \<le> TimeWithinDay t" "TimeWithinDay t < msPerDay"
  using msPerDay_pos by (simp_all add: TimeWithinDay_def)

lemma MakeDate_Day: "MakeDate (Day t) (TimeWithinDay t) = t"
  by (simp add: MakeDate_def Day_def TimeWithinDay_def)

lemma Day_MakeDate:
  assumes "0 \<le> tm" and "tm < msPerDay"
  shows "Day (MakeDate dy tm) = dy" and "TimeWithinDay (MakeDate dy tm) = tm"
proof -
  have eq: "MakeDate dy tm = msPerDay * dy + tm" by (simp add: MakeDate_def)
  show "Day (MakeDate dy tm) = dy"
    unfolding Day_def by (rule int_div_pos_eq [OF eq assms])
  show "TimeWithinDay (MakeDate dy tm) = tm"
    unfolding TimeWithinDay_def by (rule int_mod_pos_eq [OF eq assms])
qed


lemma leap_year_cases: "leap_year y = 0 \<or> leap_year y = 1"
  by (simp add: leap_year_def)

lemma DaysInYear_leap: "DaysInYear y = 365 + leap_year y"
  by (simp add: leap_year_def DaysInYear_def)

lemma month_cases:
  fixes m :: int
  assumes "0 \<le> m" and "m \<le> 11"
  shows "m = 0 \<or> m = 1 \<or> m = 2 \<or> m = 3 \<or> m = 4 \<or> m = 5 \<or> m = 6 \<or> m = 7 \<or>
         m = 8 \<or> m = 9 \<or> m = 10 \<or> m = 11"
  using assms by arith

lemma DayWithinYear_range:
  "0 \<le> DayWithinYear t" "DayWithinYear t < 365 + InLeapYear t"
  using YearFromDay_bounds [of "Day t"] DayFromYear_Suc [of "YearFromTime t"]
  by (simp_all add: DayWithinYear_def YearFromTime_def InLeapYear_def DaysInYear_leap)

lemma MonthFromTime_range: "0 \<le> MonthFromTime t" "MonthFromTime t \<le> 11"
  by (simp_all add: MonthFromTime_def Let_def)

lemma DateFromTime_eq:
  "DateFromTime t = DayWithinYear t - month_start (InLeapYear t) (MonthFromTime t) + 1"
  by (simp add: DateFromTime_def month_start_def Let_def)

lemma DateFromTime_range:
  "1 \<le> DateFromTime t" "DateFromTime t \<le> days_in_month (YearFromTime t) (MonthFromTime t)"
proof -
  note r = DayWithinYear_range [of t] leap_year_cases [of "YearFromTime t"]
  show "1 \<le> DateFromTime t"
    using r by (auto simp: DateFromTime_def MonthFromTime_def Let_def InLeapYear_def)
  show "DateFromTime t \<le> days_in_month (YearFromTime t) (MonthFromTime t)"
    using r
    by (auto simp: DateFromTime_def MonthFromTime_def Let_def InLeapYear_def days_in_month_def)
qed

lemma MakeDay_normal:
  assumes "0 \<le> m" and "m \<le> 11"
  shows "MakeDay y m d = DayFromYear y + month_start (leap_year y) m + d - 1"
proof -
  from assms have "m div 12 = 0" and "m mod 12 = m" by simp_all
  then show ?thesis by (simp add: MakeDay_def)
qed

lemma MakeDay_fields: "MakeDay (YearFromTime t) (MonthFromTime t) (DateFromTime t - k) = Day t - k"
  by (simp add: MakeDay_normal [OF MonthFromTime_range] DateFromTime_eq InLeapYear_def
      DayWithinYear_def)

lemma month_start_range:
  assumes "0 \<le> m" and "m \<le> 11"
  shows "0 \<le> month_start (leap_year y) m"
    and "month_start (leap_year y) m + days_in_month y m \<le> 365 + leap_year y"
  using leap_year_cases [of y] month_cases [OF assms]
  by (auto simp add: month_start_def days_in_month_def)

lemma fields_MakeDay:
  assumes m: "0 \<le> m" "m \<le> 11" and d: "1 \<le> d" "d \<le> days_in_month y m"
    and t: "Day t = MakeDay y m d"
  shows "YearFromTime t = y" and "MonthFromTime t = m" and "DateFromTime t = d"
proof -
  have day: "Day t = DayFromYear y + month_start (leap_year y) m + d - 1"
    using t by (simp add: MakeDay_normal [OF m])
  with month_start_range [OF m, of y] d
  have "DayFromYear y \<le> Day t" and "Day t < DayFromYear y + DaysInYear y"
    by (simp_all add: DaysInYear_leap)
  then show y: "YearFromTime t = y"
    unfolding YearFromTime_def by (intro YearFromDay_unique) (simp_all add: DayFromYear_Suc)
  then have dwy: "DayWithinYear t = month_start (leap_year y) m + d - 1"
    and leap: "InLeapYear t = leap_year y"
    using day by (simp_all add: DayWithinYear_def InLeapYear_def)
  show mt: "MonthFromTime t = m"
    using d leap_year_cases [of y] month_cases [OF m]
    by (elim disjE) (simp_all add: MonthFromTime_def dwy leap month_start_def days_in_month_def)
  show "DateFromTime t = d"
    by (simp add: DateFromTime_eq dwy leap mt)
qed


lemma MakeDay_unfold:
  "MakeDay y0 m0 d =
     DayFromYear (y0 + m0 div 12) + month_start (leap_year (y0 + m0 div 12)) (m0 mod 12) + d - 1"
  by (simp add: MakeDay_def Let_def)

lemma fields_after_MakeDay:
  assumes d: "1 \<le> d" "d \<le> 31" and t: "Day t = MakeDay y0 m0 d"
  defines "y1 \<equiv> y0 + m0 div 12" and "m1 \<equiv> m0 mod 12"
  shows "if d \<le> days_in_month y1 m1
         then YearFromTime t = y1 \<and> MonthFromTime t = m1 \<and> DateFromTime t = d
         else YearFromTime t = y1 \<and> MonthFromTime t = m1 + 1 \<and>
              DateFromTime t = d - days_in_month y1 m1"
proof -
  have m1: "0 \<le> m1" "m1 \<le> 11"
    using pos_mod_sign [of 12 m0] pos_mod_bound [of 12 m0] by (simp_all add: m1_def)
  have day: "Day t = DayFromYear y1 + month_start (leap_year y1) m1 + d - 1"
    using t by (simp add: MakeDay_unfold y1_def m1_def)
  show ?thesis
  proof (cases "d \<le> days_in_month y1 m1")
    case True
    have "Day t = MakeDay y1 m1 d" by (simp add: day MakeDay_normal [OF m1])
    from fields_MakeDay [OF m1 d(1) True this] True show ?thesis by simp
  next
    case False
    with d(2) leap_year_cases [of y1] month_cases [OF m1]
    have nx: "0 \<le> m1 + 1" "m1 + 1 \<le> 11"
      and d': "1 \<le> d - days_in_month y1 m1" "d - days_in_month y1 m1 \<le> days_in_month y1 (m1 + 1)"
      and ms: "month_start (leap_year y1) (m1 + 1) = month_start (leap_year y1) m1 + days_in_month y1 m1"
      by (auto simp: days_in_month_def month_start_def)
    have "Day t = MakeDay y1 (m1 + 1) (d - days_in_month y1 m1)"
      by (simp add: day MakeDay_normal [OF nx] ms)
    from fields_MakeDay [OF nx d' this] False show ?thesis by simp
  qed
qed

lemma months_back_MakeDay:
  assumes idx: "12 * y0 + m0 = 12 * YearFromTime lt + MonthFromTime lt - k"
    and fits: "day_exists k lt"
  shows "months_back k lt (MakeDate (MakeDay y0 m0 (DateFromTime lt)) (TimeWithinDay lt))"
proof -
  let ?target = "12 * YearFromTime lt + MonthFromTime lt - k"
  note twd = Day_MakeDate [OF TimeWithinDay_range, of "MakeDay y0 m0 (DateFromTime lt)" lt]
  have dv: "?target div 12 = y0 + m0 div 12" and md: "?target mod 12 = m0 mod 12"
    unfolding idx [symmetric] by simp_all
  have sum: "12 * (y0 + m0 div 12) + m0 mod 12 = ?target"
    unfolding idx [symmetric] using mult_div_mod_eq [of 12 m0] by (simp add: algebra_simps)
  have d31: "DateFromTime lt \<le> 31"
    using DateFromTime_range(2) [of lt] leap_year_cases [of "YearFromTime lt"]
    by (auto simp add: days_in_month_def split: if_splits)
  from fits have "DateFromTime lt \<le> days_in_month (y0 + m0 div 12) (m0 mod 12)"
    by (simp add: day_exists_def Let_def dv md)
  with fields_after_MakeDay [OF DateFromTime_range(1) d31 twd(1)] sum twd(2)
  show ?thesis by (simp add: months_back_def)
qed

lemma MakeDate_shift: "MakeDate (Day t + k) (TimeWithinDay t) = t + k * msPerDay"
  using MakeDate_Day [of t] by (simp add: MakeDate_def algebra_simps)

lemma fields_same_day:
  assumes "Day t = Day t'"
  shows "YearFromTime t = YearFromTime t'" and "MonthFromTime t = MonthFromTime t'"
    and "DateFromTime t = DateFromTime t'"
proof -
  show y: "YearFromTime t = YearFromTime t'" by (simp add: YearFromTime_def assms)
  then have d: "DayWithinYear t = DayWithinYear t'" and l: "InLeapYear t = InLeapYear t'"
    by (simp_all add: DayWithinYear_def InLeapYear_def assms)
  then show m: "MonthFromTime t = MonthFromTime t'" by (simp add: MonthFromTime_def)
  with d l show "DateFromTime t = DateFromTime t'" by (simp add: DateFromTime_eq)
qed

lemma date_31: "1 \<le> DateFromTime t" "DateFromTime t \<le> 31"
  using DateFromTime_range [of t] leap_year_cases [of "YearFromTime t"]
  by (auto simp add: days_in_month_def split: if_splits)

lemma MakeDay_near:
  assumes lo: "YearFromTime lt - 10 \<le> y0 + m0 div 12" and hi: "y0 + m0 div 12 \<le> YearFromTime lt"
    and d: "- 29 \<le> d" "d \<le> 31"
  shows "Day lt - 4100 \<le> MakeDay y0 m0 d" and "MakeDay y0 m0 d \<le> Day lt + 500"
proof -
  let ?Y = "YearFromTime lt" and ?y1 = "y0 + m0 div 12"
  have m1: "0 \<le> m0 mod 12" "m0 mod 12 \<le> 11"
    using pos_mod_sign [of 12 m0] pos_mod_bound [of 12 m0] by simp_all
  have ms: "0 \<le> month_start (leap_year ?y1) (m0 mod 12)"
    "month_start (leap_year ?y1) (m0 mod 12) \<le> 338"
    using month_start_range [OF m1, of ?y1] leap_year_cases [of ?y1]
    by (auto simp: days_in_month_def split: if_splits)
  have Y: "DayFromYear ?Y \<le> Day lt" "Day lt < DayFromYear ?Y + 366"
    using YearFromDay_bounds [of "Day lt"] DayFromYear_Suc [of ?Y] DaysInYear_bounds(2) [of ?Y]
    by (simp_all add: YearFromTime_def)
  have "DayFromYear ?Y \<le> DayFromYear (?Y - 10) + 3660"
    using DayFromYear_growth [of "?Y - 10" 10] by simp
  with DayFromYear_mono [OF lo] have lo': "DayFromYear ?Y - 3660 \<le> DayFromYear ?y1" by simp
  note hi' = DayFromYear_mono [OF hi]
  show "Day lt - 4100 \<le> MakeDay y0 m0 d"
    unfolding MakeDay_unfold using ms d Y lo' by linarith
  show "MakeDay y0 m0 d \<le> Day lt + 500"
    unfolding MakeDay_unfold using ms d Y hi' by linarith
qed

lemma TimeClip_near:
  assumes clock: "0 \<le> c" "c < 253402300800000" and zone: "zone_spread tza"
    and tw: "0 \<le> tw" "tw < msPerDay"
    and dy: "Day (LocalTime tza c) - 4100 \<le> dy" "dy \<le> Day (LocalTime tza c) + 500"
  shows "TimeClip (UTC tza (MakeDate dy tw)) = Some (UTC tza (MakeDate dy tw))"
proof -
  let ?lt = "LocalTime tza c" and ?L = "MakeDate dy tw"
  define k where "k = dy - Day ?lt"
  define off where "off = tza c True - tza ?L False"
  from zone have off: "- (2 * msPerDay) \<le> off" "off \<le> 2 * msPerDay"
    unfolding off_def zone_spread_def by (metis abs_le_iff minus_le_iff)+
  from dy have k: "- 4100 \<le> k" "k \<le> 500" by (simp_all add: k_def)
  have "?lt = Day ?lt * msPerDay + TimeWithinDay ?lt"
    using MakeDate_Day [of ?lt] by (simp add: MakeDate_def)
  then have "UTC tza ?L = c + k * msPerDay + tw - TimeWithinDay ?lt + off"
    by (simp add: UTC_def LocalTime_def MakeDate_def k_def off_def algebra_simps)
  with TimeWithinDay_range [of ?lt] tw off k clock show ?thesis
    by (simp add: TimeClip_def msPerDay_def)
qed

lemma month_index_div:
  fixes m :: int
  assumes "0 \<le> m" and "m \<le> 11"
  shows "- 1 \<le> (m - 6) div 12" and "(m - 6) div 12 \<le> 0"
proof -
  have "(- 12) div 12 \<le> (m - 6) div (12::int)"
    using assms by (intro zdiv_mono1) simp_all
  then show "- 1 \<le> (m - 6) div 12" by simp
  have "(m - 6) div 12 \<le> 11 div (12::int)"
    using assms by (intro zdiv_mono1) simp_all
  then show "(m - 6) div 12 \<le> 0" by simp
qed

section \<open>Date ranges\<close>

lemma rangeStart_localStart:
  "rangeStart tza c1 c2 r = TimeClip (UTC tza (localStart tza c1 c2 r))"
  by (simp add: rangeStart_def localStart_def setDate_def setMonth_def setFullYear_def)

lemma localStart_clipped:
  assumes c1: "0 \<le> c1" "c1 < 253402300800000" and c2: "0 \<le> c2" "c2 < 253402300800000"
    and zone: "zone_spread tza"
  shows "TimeClip (UTC tza (localStart tza c1 c2 r)) = Some (UTC tza (localStart tza c1 c2 r))"
proof -
  let ?l1 = "LocalTime tza c1" and ?l2 = "LocalTime tza c2"
  note tw = TimeWithinDay_range [of ?l2]
  note near1 = TimeClip_near [OF c1 zone tw] and near2 = TimeClip_near [OF c2 zone tw]
  have M1: "0 \<le> MonthFromTime ?l1" "MonthFromTime ?l1 \<le> 11"
    and M2: "MonthFromTime ?l2 div 12 = 0"
    using MonthFromTime_range [of ?l1] MonthFromTime_range [of ?l2] by simp_all
  have days: "TimeClip (UTC tza (newDate_setDate ?l2 (DateFromTime ?l1 - j)))
      = Some (UTC tza (newDate_setDate ?l2 (DateFromTime ?l1 - j)))"
    if j: "0 \<le> j" "j \<le> 30" for j
  proof -
    have "MakeDay (YearFromTime ?l2) (MonthFromTime ?l2) (DateFromTime ?l1 - j)
        = Day ?l2 - (DateFromTime ?l2 - DateFromTime ?l1 + j)"
      using MakeDay_fields [of ?l2 "DateFromTime ?l2 - DateFromTime ?l1 + j"] by simp
    with date_31 [of ?l1] date_31 [of ?l2] j show ?thesis
      unfolding newDate_setDate_def by (intro near2) simp_all
  qed
  have months: "TimeClip (UTC tza (newDate_setMonth ?l2 (MonthFromTime ?l1 - 6)))
      = Some (UTC tza (newDate_setMonth ?l2 (MonthFromTime ?l1 - 6)))"
    unfolding newDate_setMonth_def
    using month_index_div [OF M1] date_31 [of ?l2]
    by (intro near2 MakeDay_near) simp_all
  have years: "TimeClip (UTC tza (newDate_setFullYear ?l2 (YearFromTime ?l1 - j)))
      = Some (UTC tza (newDate_setFullYear ?l2 (YearFromTime ?l1 - j)))"
    if j: "0 \<le> j" "j \<le> 10" for j
    unfolding newDate_setFullYear_def
    using j date_31 [of ?l2] M2
    by (intro near1 MakeDay_near) simp_all
  show ?thesis
    using days [of 7] days [of 30] months years [of 1] years [of 10]
    by (simp add: localStart_def getDate_def getMonth_def getFullYear_def)
qed

lemma rangeStart_total:
  assumes "0 \<le> c1" "c1 < 253402300800000" "0 \<le> c2" "c2 < 253402300800000" "zone_spread tza"
  shows "rangeStart tza c1 c2 r = Some (UTC tza (localStart tza c1 c2 r))"
  using localStart_clipped [OF assms] by (simp add: rangeStart_localStart)

lemma localStart_same_day:
  assumes same: "Day (LocalTime tza c1) = Day (LocalTime tza c2)"
  shows "r = ''last_7_days'' \<longrightarrow> localStart tza c1 c2 r = LocalTime tza c2 - 7 * msPerDay"
    and "r = ''last_30_days'' \<longrightarrow> localStart tza c1 c2 r = LocalTime tza c2 - 30 * msPerDay"
    and "r = ''last_6_months'' \<and> day_exists 6 (LocalTime tza c2) \<longrightarrow>
           months_back 6 (LocalTime tza c2) (localStart tza c1 c2 r)"
    and "r = ''last_year'' \<and> day_exists 12 (LocalTime tza c2) \<longrightarrow>
           months_back 12 (LocalTime tza c2) (localStart tza c1 c2 r)"
    and "(r = ''all_time'' \<or> \<not> known_range r) \<and> day_exists 120 (LocalTime tza c2) \<longrightarrow>
           months_back 120 (LocalTime tza c2) (localStart tza c1 c2 r)"
proof -
  let ?l1 = "LocalTime tza c1" and ?l2 = "LocalTime tza c2"
  note f = fields_same_day [OF same]
  have shifted: "newDate_setDate ?l2 (DateFromTime ?l1 - j) = ?l2 - j * msPerDay" for j
    using MakeDate_shift [of ?l2 "- j"] by (simp add: newDate_setDate_def f MakeDay_fields)
  show "r = ''last_7_days'' \<longrightarrow> localStart tza c1 c2 r = ?l2 - 7 * msPerDay"
    using shifted [of 7] by (simp add: localStart_def getDate_def)
  show "r = ''last_30_days'' \<longrightarrow> localStart tza c1 c2 r = ?l2 - 30 * msPerDay"
    using shifted [of 30] by (simp add: localStart_def getDate_def)
  show "r = ''last_6_months'' \<and> day_exists 6 ?l2 \<longrightarrow> months_back 6 ?l2 (localStart tza c1 c2 r)"
    using months_back_MakeDay [of "YearFromTime ?l2" "MonthFromTime ?l2 - 6" ?l2 6]
    by (simp add: localStart_def getMonth_def newDate_setMonth_def f)
  show "r = ''last_year'' \<and> day_exists 12 ?l2 \<longrightarrow> months_back 12 ?l2 (localStart tza c1 c2 r)"
    using months_back_MakeDay [of "YearFromTime ?l2 - 1" "MonthFromTime ?l2" ?l2 12]
    by (simp add: localStart_def getFullYear_def newDate_setFullYear_def f)
  show "(r = ''all_time'' \<or> \<not> known_range r) \<and> day_exists 120 ?l2 \<longrightarrow>
      months_back 120 ?l2 (localStart tza c1 c2 r)"
    using months_back_MakeDay [of "YearFromTime ?l2 - 10" "MonthFromTime ?l2" ?l2 120]
    by (auto simp add: localStart_def getFullYear_def newDate_setFullYear_def f known_range_def)
qed

section \<open>Month labels\<close>

lemma label_loop_snoc:
  "label_loop f (ws @ [w]) = label_step f (label_loop f ws) (length ws, w)"
  by (simp add: label_loop_def enumerate_append_eq)

lemma label_loop_Nil: "label_loop f [] = ([], Num (- 1))"
  by (simp add: label_loop_def)


lemma label_step_nonempty:
  assumes "contributionDays w \<noteq> []"
  shows "label_step f (ls, lm) (i, w) =
     (if strict_neq (week_month f w) lm
      then (ls @ [\<lparr>label = month_label (week_month f w), col = int i\<rparr>], week_month f w)
      else (ls, lm))"
  using assms by (cases "contributionDays w") (simp_all add: week_month_def Let_def)

lemma label_loop_take_Suc:
  assumes "k < length weeks"
  shows "label_loop f (take (Suc k) weeks) = label_step f (label_loop f (take k weeks)) (k, weeks ! k)"
  using assms by (simp add: take_Suc_conv_app_nth label_loop_snoc)

lemma strict_neq_minus_one:
  assumes "getMonth_range f"
  shows "strict_neq (f s) (Num (- 1))"
proof (cases "f s")
  case (Num k)
  with assms have "0 \<le> k" 
    by (auto simp: getMonth_range_def split: js_number.splits dest: spec [of _ s])
  with Num show ?thesis by simp
next
  case NaN
  then show ?thesis by simp
qed

lemma label_loop_invariant:
  assumes range: "getMonth_range f"
    and nonempty: "\<forall>w \<in> set weeks. contributionDays w \<noteq> []"
    and k: "k \<le> length weeks"
  shows "snd (label_loop f (take k weeks)) = previous_month f weeks (fst (label_loop f (take k weeks))) \<and>
         (\<forall>l \<in> set (fst (label_loop f (take k weeks))). \<exists>i < k. l = new_label f weeks i) \<and>
         sorted_wrt (<) (map col (fst (label_loop f (take k weeks)))) \<and>
         (0 < k \<longrightarrow> fst (label_loop f (take k weeks)) \<noteq> [] \<and> col (hd (fst (label_loop f (take k weeks)))) = 0)"
  using k
proof (induction k)
  case 0
  then show ?case by (simp add: label_loop_Nil previous_month_def)
next
  case (Suc k)
  obtain ls lm where st: "label_loop f (take k weeks) = (ls, lm)" by (cases "label_loop f (take k weeks)")
  from Suc have klt: "k < length weeks" by simp
  with nonempty have ne: "contributionDays (weeks ! k) \<noteq> []" by simp
  from Suc.IH klt st have lm: "lm = previous_month f weeks ls"
    and ls: "\<forall>l \<in> set ls. \<exists>i < k. l = new_label f weeks i"
    and srt: "sorted_wrt (<) (map col ls)"
    and hd: "0 < k \<longrightarrow> ls \<noteq> [] \<and> col (hd ls) = 0"
    by simp_all
  have step: "label_loop f (take (Suc k) weeks) =
     (if strict_neq (week_month f (weeks ! k)) lm
      then (ls @ [new_label f weeks k], week_month f (weeks ! k))
      else (ls, lm))"
    by (simp add: label_loop_take_Suc [OF klt] st label_step_nonempty [OF ne] new_label_def
        del: label_step.simps)
  show ?case
  proof (cases "strict_neq (week_month f (weeks ! k)) lm")
    case True
    have cols: "\<forall>l \<in> set ls. col l < int k"
      using ls by (auto simp: new_label_def)
    have "sorted_wrt (<) (map col (ls @ [new_label f weeks k]))"
      using srt cols by (simp add: sorted_wrt_append new_label_def)
    moreover have "\<forall>l \<in> set (ls @ [new_label f weeks k]). \<exists>i < Suc k. l = new_label f weeks i"
      using ls by (auto intro: less_SucI)
    moreover have "col (hd (ls @ [new_label f weeks k])) = 0"
    proof (cases "k = 0")
      case True
      with st have "ls = []" by (simp add: label_loop_Nil)
      with True show ?thesis by (simp add: new_label_def)
    next
      case False
      with hd show ?thesis by simp
    qed
    moreover have "previous_month f weeks (ls @ [new_label f weeks k]) = week_month f (weeks ! k)"
      by (simp add: previous_month_def new_label_def)
    ultimately show ?thesis using True by (simp add: step)
  next
    case False
    have "0 < k"
    proof (rule ccontr)
      assume "\<not> 0 < k"
      then have "lm = Num (- 1)" using st by (simp add: label_loop_Nil)
      with False strict_neq_minus_one [OF range] show False by (simp add: week_month_def)
    qed
    with False lm ls srt hd show ?thesis by (auto simp: step intro: less_SucI)
  qed
qed

lemma label_loop_emit:
  assumes range: "getMonth_range f"
    and nonempty: "\<forall>w \<in> set weeks. contributionDays w \<noteq> []"
    and i: "i < length weeks"
  shows "fst (label_loop f (take (Suc i) weeks)) =
           fst (label_loop f (take i weeks)) @
           (if strict_neq (week_month f (weeks ! i))
                 (previous_month f weeks (fst (label_loop f (take i weeks))))
            then [new_label f weeks i] else [])"
proof -
  obtain ls lm where st: "label_loop f (take i weeks) = (ls, lm)" by (cases "label_loop f (take i weeks)")
  from nonempty i have ne: "contributionDays (weeks ! i) \<noteq> []" by simp
  from label_loop_invariant [OF range nonempty, of i] i st
  have lm: "lm = previous_month f weeks ls" by simp
  show ?thesis
    by (simp add: label_loop_take_Suc [OF i] st label_step_nonempty [OF ne] new_label_def
        del: label_step.simps flip: lm)
qed

lemma emitted_before_stable:
  assumes range: "getMonth_range f"
    and nonempty: "\<forall>w \<in> set weeks. contributionDays w \<noteq> []"
    and ik: "i \<le> k" and k: "k \<le> length weeks"
  shows "emitted_before (fst (label_loop f (take k weeks))) i = fst (label_loop f (take i weeks))"
  using ik k
proof (induction k)
  case 0
  then show ?case by (simp add: label_loop_Nil emitted_before_def)
next
  case (Suc k)
  show ?case
  proof (cases "i = Suc k")
    case True
    from label_loop_invariant [OF range nonempty, of i] Suc.prems True
    have "\<forall>l \<in> set (fst (label_loop f (take i weeks))). col l < int i"
      by (auto simp: new_label_def)
    then show ?thesis unfolding emitted_before_def True by (simp add: filter_id_conv)
  next
    case False
    with Suc.prems have ik: "i \<le> k" and klt: "k < length weeks" by simp_all
    with Suc.IH have IH: "emitted_before (fst (label_loop f (take k weeks))) i = fst (label_loop f (take i weeks))"
      by simp
    show ?thesis
      using ik IH by (simp add: label_loop_emit [OF range nonempty klt] emitted_before_def new_label_def)
  qed
qed

lemma getMonthLabels_emits_iff:
  assumes range: "getMonth_range f"
    and nonempty: "\<forall>w \<in> set weeks. contributionDays w \<noteq> []"
    and i: "i < length weeks"
  shows "(\<exists>l \<in> set (getMonthLabels f weeks). col l = int i) \<longleftrightarrow>
         strict_neq (week_month f (weeks ! i))
           (previous_month f weeks (emitted_before (getMonthLabels f weeks) i))"
proof -
  let ?L = "getMonthLabels f weeks"
  let ?Li = "fst (label_loop f (take i weeks))"
  have full: "?L = fst (label_loop f (take (length weeks) weeks))"
    by (simp add: getMonthLabels_def)
  have eb: "emitted_before ?L i = ?Li"
    unfolding full using emitted_before_stable [OF range nonempty, of i "length weeks"] i by simp
  have eb': "emitted_before ?L (Suc i) = fst (label_loop f (take (Suc i) weeks))"
    unfolding full using emitted_before_stable [OF range nonempty, of "Suc i" "length weeks"] i by simp
  have old: "\<forall>l \<in> set ?Li. col l \<noteq> int i"
    using label_loop_invariant [OF range nonempty, of i] i by (auto simp: new_label_def)
  have "(\<exists>l \<in> set ?L. col l = int i) \<longleftrightarrow> (\<exists>l \<in> set (emitted_before ?L (Suc i)). col l = int i)"
    by (auto simp: emitted_before_def)
  also have "\<dots> \<longleftrightarrow> strict_neq (week_month f (weeks ! i)) (previous_month f weeks ?Li)"
    using old by (auto simp: eb' label_loop_emit [OF range nonempty i] new_label_def)
  finally show ?thesis by (simp add: eb)
qed


lemma length_label_spans: "length (label_spans ls ws) = length ls"
  by (simp add: label_spans_def)

lemma label_spans_nth:
  assumes "k < length ls"
  shows "label_spans ls ws ! k =
           (if k + 1 < length ls then col (ls ! (k + 1)) else int (length ws)) - col (ls ! k)"
proof -
  have "(int k < int (length ls) - 1) = (k + 1 < length ls)" by auto
  with assms show ?thesis by (simp add: label_spans_def nth_enumerate_eq Let_def)
qed

lemma sum_list_label_spans:
  assumes "ls \<noteq> []"
  shows "sum_list (label_spans ls ws) = int (length ws) - col (hd ls)"
proof -
  define c where "c i = (if i < length ls then col (ls ! i) else int (length ws))" for i
  have "sum_list (label_spans ls ws) = (\<Sum>i = 0..<length ls. label_spans ls ws ! i)"
    by (simp add: sum_list_sum_nth length_label_spans)
  also have "\<dots> = (\<Sum>i = 0..<length ls. c (Suc i) - c i)"
    by (rule sum.cong) (simp_all add: label_spans_nth c_def)
  also have "\<dots> = c (length ls) - c 0"
    by (rule sum_Suc_diff') simp
  also have "\<dots> = int (length ws) - col (hd ls)"
    using assms by (simp add: c_def hd_conv_nth)
  finally show ?thesis .
qed

lemma label_spans_positive:
  assumes "sorted_wrt (<) (map col ls)" and "\<forall>l \<in> set ls. col l < int (length ws)"
    and "k < length ls"
  shows "0 < label_spans ls ws ! k"
proof (cases "k + 1 < length ls")
  case True
  with sorted_wrt_nth_less [OF assms(1), of k "k + 1"]
  have "map col ls ! k < map col ls ! (k + 1)" by simp
  with True assms(3) show ?thesis by (simp add: label_spans_nth)
next
  case False
  with assms(2,3) show ?thesis by (simp add: label_spans_nth)
qed

lemma getMonthLabels_five_weeks:
  assumes "map (week_month f) weeks = [Num 0, Num 0, Num 1, Num 1, Num 2]"
    and "\<forall>w \<in> set weeks. contributionDays w \<noteq> []"
  shows "getMonthLabels f weeks =
           [\<lparr>label = Some ''Jan'', col = 0\<rparr>, \<lparr>label = Some ''Feb'', col = 2\<rparr>,
            \<lparr>label = Some ''Mar'', col = 4\<rparr>]"
proof -
  from assms(1) obtain w0 w1 w2 w3 w4 where ws: "weeks = [w0, w1, w2, w3, w4]"
    and ms: "week_month f w0 = Num 0" "week_month f w1 = Num 0" "week_month f w2 = Num 1"
      "week_month f w3 = Num 1" "week_month f w4 = Num 2"
    by (auto simp: map_eq_Cons_conv)
  from assms(2) ws have ne: "contributionDays w0 \<noteq> []" "contributionDays w1 \<noteq> []"
    "contributionDays w2 \<noteq> []" "contributionDays w3 \<noteq> []" "contributionDays w4 \<noteq> []"
    by simp_all
  show ?thesis
    by (simp add: getMonthLabels_def label_loop_def ws ne [THEN label_step_nonempty] ms
        MONTH_LABELS_def del: label_step.simps)
qed

text \<open>
  Claim C3. For every ordered week sequence in which each week has at least one day
  (with the month read by a function \<open>monthOf\<close> that returns what \<^verbatim>\<open>getMonth\<close> can return),
  \<^verbatim>\<open>getMonthLabels\<close> emits a label in the column of week \<open>i\<close> exactly when the month of
  that week's first day differs from the month of the previously emitted label; the
  first week always emits, the columns of the labels increase strictly, and each label
  carries the name of its week's month. The rendered span of a label is the column of the
  next label minus its own, and for the last label the number of weeks minus its own
  column; the spans are positive and add up to the number of weeks. Five weeks whose
  first days fall in January, January, February, February and March give the labels
  Jan, Feb, Mar in columns \<open>0\<close>, \<open>2\<close>, \<open>4\<close> with spans \<open>2\<close>, \<open>2\<close>, \<open>1\<close>.
\<close>

theorem getMonthLabels_segmentation:
  assumes "getMonth_range monthOf" and "\<forall>w \<in> set weeks. contributionDays w \<noteq> []"
  shows
   "(\<forall>i < length weeks.
       (\<exists>l \<in> set (getMonthLabels monthOf weeks). col l = int i) \<longleftrightarrow>
       strict_neq (week_month monthOf (weeks ! i))
         (previous_month monthOf weeks (emitted_before (getMonthLabels monthOf weeks) i))) \<and>
    (weeks \<noteq> [] \<longrightarrow>
       getMonthLabels monthOf weeks \<noteq> [] \<and> col (hd (getMonthLabels monthOf weeks)) = 0) \<and>
    sorted_wrt (<) (map col (getMonthLabels monthOf weeks)) \<and>
    (\<forall>l \<in> set (getMonthLabels monthOf weeks). \<exists>i < length weeks.
       col l = int i \<and> label l = month_label (week_month monthOf (weeks ! i))) \<and>
    length (label_spans (getMonthLabels monthOf weeks) weeks)
      = length (getMonthLabels monthOf weeks) \<and>
    (\<forall>k < length (getMonthLabels monthOf weeks).
       label_spans (getMonthLabels monthOf weeks) weeks ! k =
         (if k + 1 < length (getMonthLabels monthOf weeks)
          then col (getMonthLabels monthOf weeks ! (k + 1))
          else int (length weeks)) - col (getMonthLabels monthOf weeks ! k) \<and>
       0 < label_spans (getMonthLabels monthOf weeks) weeks ! k) \<and>
    sum_list (label_spans (getMonthLabels monthOf weeks) weeks) = int (length weeks) \<and>
    (map (week_month monthOf) weeks = [Num 0, Num 0, Num 1, Num 1, Num 2] \<longrightarrow>
       getMonthLabels monthOf weeks =
         [\<lparr>label = Some ''Jan'', col = 0\<rparr>, \<lparr>label = Some ''Feb'', col = 2\<rparr>,
          \<lparr>label = Some ''Mar'', col = 4\<rparr>] \<and>
       label_spans (getMonthLabels monthOf weeks) weeks = [2, 2, 1])"
proof -
  let ?L = "getMonthLabels monthOf weeks"
  have full: "?L = fst (label_loop monthOf (take (length weeks) weeks))"
    by (simp add: getMonthLabels_def)
  note inv = label_loop_invariant [OF assms, of "length weeks", folded full]
  have emit: "\<forall>i < length weeks.
       (\<exists>l \<in> set ?L. col l = int i) \<longleftrightarrow>
       strict_neq (week_month monthOf (weeks ! i))
         (previous_month monthOf weeks (emitted_before ?L i))"
    using getMonthLabels_emits_iff [OF assms] by blast
  have first: "weeks \<noteq> [] \<longrightarrow> ?L \<noteq> [] \<and> col (hd ?L) = 0"
    using inv by simp
  have srt: "sorted_wrt (<) (map col ?L)"
    using inv by simp
  have lbl: "\<forall>l \<in> set ?L. \<exists>i < length weeks.
       col l = int i \<and> label l = month_label (week_month monthOf (weeks ! i))"
    using inv by (auto simp: new_label_def)
  then have bound: "\<forall>l \<in> set ?L. col l < int (length weeks)" by auto
  have spans: "\<forall>k < length ?L.
       label_spans ?L weeks ! k =
         (if k + 1 < length ?L then col (?L ! (k + 1)) else int (length weeks)) - col (?L ! k) \<and>
       0 < label_spans ?L weeks ! k"
    using label_spans_positive [OF srt bound] by (simp add: label_spans_nth)
  have total: "sum_list (label_spans ?L weeks) = int (length weeks)"
  proof (cases "weeks = []")
    case True
    then show ?thesis by (simp add: getMonthLabels_def label_loop_def label_spans_def)
  next
    case False
    with first sum_list_label_spans [of ?L weeks] show ?thesis by simp
  qed
  have ex: "map (week_month monthOf) weeks = [Num 0, Num 0, Num 1, Num 1, Num 2] \<longrightarrow>
       ?L = [\<lparr>label = Some ''Jan'', col = 0\<rparr>, \<lparr>label = Some ''Feb'', col = 2\<rparr>,
          \<lparr>label = Some ''Mar'', col = 4\<rparr>] \<and>
       label_spans ?L weeks = [2, 2, 1]"
  proof
    assume m: "map (week_month monthOf) weeks = [Num 0, Num 0, Num 1, Num 1, Num 2]"
    then have "length (map (week_month monthOf) weeks) = 5" by simp
    then have len: "length weeks = 5" by simp
    from getMonthLabels_five_weeks [OF m assms(2)] len
    show "?L = [\<lparr>label = Some ''Jan'', col = 0\<rparr>, \<lparr>label = Some ''Feb'', col = 2\<rparr>,
          \<lparr>label = Some ''Mar'', col = 4\<rparr>] \<and>
       label_spans ?L weeks = [2, 2, 1]"
      by (simp add: label_spans_def)
  qed
  from emit first srt lbl length_label_spans [of ?L weeks] spans total ex
  show ?thesis by blast
qed

lemma getMonth_range_iso_month: "getMonth_range iso_month"
  by (auto simp: getMonth_range_def iso_month_def split: js_number.splits option.splits)

theorem getMonthLabels_segmentation_witness:
  "getMonth_range iso_month \<and>
   list_all (\<lambda>w. contributionDays w \<noteq> []) five_weeks \<and>
   map (week_month iso_month) five_weeks = [Num 0, Num 0, Num 1, Num 1, Num 2] \<and>
   getMonthLabels iso_month five_weeks =
     [\<lparr>label = Some ''Jan'', col = 0\<rparr>, \<lparr>label = Some ''Feb'', col = 2\<rparr>,
      \<lparr>label = Some ''Mar'', col = 4\<rparr>] \<and>
   label_spans (getMonthLabels iso_month five_weeks) five_weeks = [2, 2, 1]"
proof -
  have ne: "\<forall>w \<in> set five_weeks. contributionDays w \<noteq> []"
    by (simp add: five_weeks_def week_starting_def)
  have m: "map (week_month iso_month) five_weeks = [Num 0, Num 0, Num 1, Num 1, Num 2]"
    by (simp add: five_weeks_def week_starting_def week_month_def iso_month_def)
  have ne': "list_all (\<lambda>w. contributionDays w \<noteq> []) five_weeks"
    using ne by (simp add: list_all_iff)
  from getMonthLabels_segmentation [OF getMonth_range_iso_month ne] m
  have "getMonthLabels iso_month five_weeks =
     [\<lparr>label = Some ''Jan'', col = 0\<rparr>, \<lparr>label = Some ''Feb'', col = 2\<rparr>,
      \<lparr>label = Some ''Mar'', col = 4\<rparr>] \<and>
   label_spans (getMonthLabels iso_month five_weeks) five_weeks = [2, 2, 1]"
    by blast
  with getMonth_range_iso_month ne' m show ?thesis by blast
qed

section \<open>Top languages\<close>

lemma topLanguages_retained:
  assumes "\<forall>l \<in> set ls. 0 \<le> total_seconds l" and "languages d = Some ls"
  shows "topLanguages (Some d) = spec_retained ls"
proof -
  have "filter (\<lambda>l. name l \<noteq> ''Other'' \<and> total_seconds l > 0) ls
      = filter (\<lambda>l. \<not> (name l = ''Other'' \<or> total_seconds l = 0)) ls"
    using assms by (intro filter_cong) auto
  then show ?thesis by (simp add: topLanguages_def spec_retained_def assms(2))
qed

lemma percent_descending_retained:
  assumes "percent_descending ls"
  shows "percent_descending (spec_retained ls)"
  using assms unfolding percent_descending_def spec_retained_def
  by (intro sorted_wrt_take sorted_wrt_filter)

lemma percent_descending_max:
  assumes "percent_descending tops" and "tops \<noteq> []"
  shows "maxLangPercent tops = spec_max_percent tops"
proof -
  from assms(2) obtain x xs where tops: "tops = x # xs" by (cases tops) auto
  with assms(1) have le: "\<forall>y \<in> set xs. percent y \<le> percent x"
    by (simp add: percent_descending_def)
  have "Max (insert (percent x) (percent ` set xs)) = percent x"
    using le by (intro Max_eqI) auto
  then show ?thesis by (simp add: maxLangPercent_def spec_max_percent_def tops)
qed


subsection \<open>Rounding\<close>

lemma pow2_power_int: "pow2 e = power_int 2 e"
  by (simp add: pow2_def power_int_def inverse_eq_divide power_one_over)

lemma pow2_pos: "0 < pow2 e"
  by (simp add: pow2_power_int)

lemma pow2_add: "pow2 (a + b) = pow2 a * pow2 b"
  by (simp add: pow2_power_int power_int_add)

lemma pow2_diff: "pow2 (a - b) = pow2 a / pow2 b"
  by (simp add: pow2_power_int power_int_diff)

lemma pow2_mono: "a \<le> b \<Longrightarrow> pow2 a \<le> pow2 b"
  by (simp add: pow2_power_int power_int_increasing)

lemma pow2_less_iff: "pow2 a < pow2 b \<longleftrightarrow> a < b"
proof
  show "a < b \<Longrightarrow> pow2 a < pow2 b"
    by (simp add: pow2_power_int power_int_strict_increasing)
  show "pow2 a < pow2 b \<Longrightarrow> a < b"
    using pow2_mono [of b a] by (cases "a < b") simp_all
qed

lemma pow2_nat: "0 \<le> e \<Longrightarrow> pow2 e = 2 ^ nat e"
  by (simp add: pow2_def)

lemma bitlen_pow2:
  assumes "0 < n"
  shows "pow2 (bitlen n - 1) \<le> of_int n" and "of_int n < pow2 (bitlen n)"
proof -
  from bitlen_bounds [OF assms] have lo: "2 ^ nat (bitlen n - 1) \<le> n" and hi: "n < 2 ^ nat (bitlen n)"
    by simp_all
  from hi assms have b: "1 \<le> bitlen n"
    by (cases "1 \<le> bitlen n") (simp_all add: not_le)
  from lo have "(of_int (2 ^ nat (bitlen n - 1)) :: rat) \<le> of_int n" by (rule of_int_le_iff [THEN iffD2])
  with b show "pow2 (bitlen n - 1) \<le> of_int n" by (simp add: pow2_nat)
  from hi have "(of_int n :: rat) < of_int (2 ^ nat (bitlen n))" by (rule of_int_less_iff [THEN iffD2])
  with b show "of_int n < pow2 (bitlen n)" by (simp add: pow2_nat)
qed

lemma floor_log2_bounds:
  assumes "0 < a"
  shows "pow2 (floor_log2 a) \<le> a" and "a < pow2 (floor_log2 a + 1)"
proof -
  obtain n d where q: "quotient_of a = (n, d)" by (cases "quotient_of a")
  note a = quotient_of_div [OF q] and d = quotient_of_denom_pos [OF q]
  from assms a d have n: "0 < n" by (simp add: zero_less_divide_iff)
  let ?e = "bitlen n - bitlen d"
  note bn = bitlen_pow2 [OF n] and bd = bitlen_pow2 [OF d]
  have "a < pow2 (bitlen n) / pow2 (bitlen d - 1)"
    unfolding a using bn(2) bd(1) n d pow2_pos [of "bitlen d - 1"]
    by (intro frac_less) simp_all
  then have hi: "a < pow2 (?e + 1)" by (simp add: pow2_diff [symmetric] algebra_simps)
  have "pow2 (bitlen n - 1) / pow2 (bitlen d) < a"
    unfolding a using bn(1) bd(2) d pow2_pos [of "bitlen n - 1"]
    by (intro frac_less2) simp_all
  then have lo: "pow2 (?e - 1) < a" by (simp add: pow2_diff [symmetric] algebra_simps)
  have f: "floor_log2 a = (if pow2 ?e \<le> a then ?e else ?e - 1)"
    by (simp add: floor_log2_def q Let_def)
  show "pow2 (floor_log2 a) \<le> a" using lo by (simp add: f)
  show "a < pow2 (floor_log2 a + 1)" using hi by (simp add: f not_le)
qed

lemma floor_log2_less:
  assumes "0 < a" and "a < pow2 k"
  shows "floor_log2 a < k"
  using floor_log2_bounds(1) [OF assms(1)] assms(2) pow2_less_iff [of "floor_log2 a" k] by simp

lemma round_even_near: "\<bar>of_int (round_even x) - x\<bar> \<le> 1 / 2"
proof -
  have "of_int \<lfloor>x\<rfloor> \<le> x" "x < of_int \<lfloor>x\<rfloor> + 1" by linarith+
  then show ?thesis by (auto simp add: round_even_def Let_def abs_le_iff)
qed

lemma round64_error:
  assumes "x \<noteq> 0" and "\<bar>x\<bar> < pow2 1023"
  shows "\<exists>y. round64 x = Some y \<and> \<bar>y - x\<bar> \<le> pow2 (max (floor_log2 \<bar>x\<bar>) (- 1022) - 53)"
proof -
  let ?a = "\<bar>x\<bar>"
  define e where "e = max (floor_log2 ?a) (- 1022)"
  define q where "q = pow2 (e - 52)"
  define m where "m = round_even (?a / q)"
  from assms have a: "0 < ?a" by simp
  from floor_log2_less [OF a assms(2)] have e: "e < 1023" by (simp add: e_def)
  have q: "0 < q" by (simp add: q_def pow2_pos)
  from e have r: "round64 x = Some (sgn x * (of_int m * q))"
    using assms(1) by (simp add: round64_def Let_def e_def [symmetric] q_def [symmetric] m_def [symmetric])
  have "of_int m * q - ?a = (of_int m - ?a / q) * q"
    using q by (simp add: left_diff_distrib)
  then have "\<bar>of_int m * q - ?a\<bar> = \<bar>of_int m - ?a / q\<bar> * q"
    using q by (simp only: abs_mult abs_of_pos)
  also have "\<dots> \<le> 1 / 2 * q"
    using round_even_near [of "?a / q"] q unfolding m_def by (intro mult_right_mono) simp_all
  also have "\<dots> = pow2 (e - 53)"
    using pow2_add [of "e - 53" 1] by (simp add: q_def pow2_def [of 1])
  finally have "\<bar>of_int m * q - ?a\<bar> \<le> pow2 (e - 53)" .
  moreover have "\<bar>sgn x * (of_int m * q) - x\<bar> = \<bar>of_int m * q - ?a\<bar>"
  proof (cases "0 < x")
    case True
    then show ?thesis by simp
  next
    case False
    with assms(1) have "x < 0" by simp
    then have "sgn x * (of_int m * q) - x = - (of_int m * q - ?a)" by simp
    then show ?thesis by (simp only: abs_minus_cancel)
  qed
  ultimately show ?thesis using r by (simp add: e_def)
qed

lemma round64_0: "round64 0 = Some 0"
  by (simp add: round64_def)

lemma round64_1: "round64 1 = Some 1"
  by code_simp

lemma round64_100: "round64 100 = Some 100"
  by code_simp

lemma round64_small:
  assumes "0 \<le> k" and "k \<le> 1022" and "\<bar>x\<bar> < pow2 k"
  shows "\<exists>y. round64 x = Some y \<and> \<bar>y - x\<bar> \<le> pow2 (k - 54)"
proof (cases "x = 0")
  case True
  then show ?thesis using pow2_pos [of "k - 54"] by (simp add: round64_0)
next
  case False
  then have a: "0 < \<bar>x\<bar>" by simp
  from assms(2) have "pow2 k \<le> pow2 1023" by (intro pow2_mono) simp
  with assms(3) have "\<bar>x\<bar> < pow2 1023" by simp
  from round64_error [OF False this] obtain y where y: "round64 x = Some y"
    and e: "\<bar>y - x\<bar> \<le> pow2 (max (floor_log2 \<bar>x\<bar>) (- 1022) - 53)"
    by (elim exE conjE) (rule that)
  from floor_log2_less [OF a assms(3)] assms(1)
  have "max (floor_log2 \<bar>x\<bar>) (- 1022) - 53 \<le> k - 54" by simp
  from e pow2_mono [OF this] have "\<bar>y - x\<bar> \<le> pow2 (k - 54)" by simp
  with y show ?thesis by simp
qed

text \<open>Rounding gives a number that rounding leaves unchanged: the results are numbers.\<close>

lemma floor_log2_unique:
  assumes "pow2 k \<le> a" and "a < pow2 (k + 1)"
  shows "floor_log2 a = k"
proof -
  from assms(1) pow2_pos [of k] have a: "0 < a" by simp
  note b = floor_log2_bounds [OF a]
  from b(1) assms(2) have "pow2 (floor_log2 a) < pow2 (k + 1)" by simp
  then have "floor_log2 a < k + 1" by (simp only: pow2_less_iff)
  moreover from assms(1) b(2) have "pow2 k < pow2 (floor_log2 a + 1)" by simp
  then have "k < floor_log2 a + 1" by (simp only: pow2_less_iff)
  ultimately show ?thesis by simp
qed

lemma round_even_int: "round_even (of_int n) = n"
  by (simp add: round_even_def)

lemma round_even_le:
  assumes "x \<le> of_int n"
  shows "round_even x \<le> n"
proof (cases "\<lfloor>x\<rfloor> = n")
  case True
  with assms have "x = of_int n" by linarith
  then show ?thesis by (simp add: round_even_int)
next
  case False
  from assms have "\<lfloor>x\<rfloor> \<le> n" by (simp add: floor_le_iff)
  with False have "\<lfloor>x\<rfloor> + 1 \<le> n" by simp
  then show ?thesis by (simp add: round_even_def Let_def)
qed

lemma round_even_ge:
  assumes "of_int n \<le> x"
  shows "n \<le> round_even x"
proof -
  from assms have "n \<le> \<lfloor>x\<rfloor>" by (simp add: le_floor_iff)
  then show ?thesis by (simp add: round_even_def Let_def)
qed

lemma round64_exact:
  assumes m: "0 < m" and e: "- 1022 \<le> e" "e \<le> 1023"
    and fl: "floor_log2 (of_int m * pow2 (e - 52)) \<le> e"
    and n: "floor_log2 (of_int m * pow2 (e - 52)) = e \<or> e = - 1022"
    and o: "e = 1023 \<longrightarrow> m \<noteq> 2 ^ 53"
  shows "round64 (of_int m * pow2 (e - 52)) = Some (of_int m * pow2 (e - 52))"
proof -
  let ?q = "pow2 (e - 52)"
  have q: "0 < ?q" by (rule pow2_pos)
  with m have y: "0 < of_int m * ?q" by simp
  from n e(1) fl have e': "max (floor_log2 (of_int m * ?q)) (- 1022) = e" by auto
  from y have ab: "\<bar>of_int m * ?q\<bar> = of_int m * ?q" and sg: "sgn (of_int m * ?q) = 1"
    by simp_all
  from q have r: "round_even (of_int m * ?q / ?q) = m"
    by (simp add: round_even_int)
  have nz: "of_int m * ?q \<noteq> 0" by (rule not_sym [OF less_imp_neq [OF y]])
  have "round64 (of_int m * ?q) =
      (if 1023 < e \<or> (e = 1023 \<and> m = 2 ^ 53) then None else Some (1 * (of_int m * ?q)))"
    by (simp only: round64_def Let_def nz if_False ab e' r sg)
  with e(2) o show ?thesis by simp
qed

lemma round64_number:
  assumes "round64 x = Some y"
  shows "js_number y"
proof (cases "x = 0")
  case True
  with assms show ?thesis by (simp add: round64_0 js_number_def)
next
  case False
  let ?a = "\<bar>x\<bar>"
  define e where "e = max (floor_log2 ?a) (- 1022)"
  define q where "q = pow2 (e - 52)"
  define m where "m = round_even (?a / q)"
  from False have a: "0 < ?a" by simp
  have q: "0 < q" by (simp add: q_def pow2_pos)
  note b = floor_log2_bounds [OF a]
  from assms False have ov: "\<not> (1023 < e \<or> (e = 1023 \<and> m = 2 ^ 53))"
    and y: "y = sgn x * (of_int m * q)"
    by (simp_all add: round64_def Let_def e_def [symmetric] q_def [symmetric] m_def [symmetric]
        split: if_splits)
  have e1: "- 1022 \<le> e" by (simp add: e_def)
  have c: "pow2 53 = 2 ^ 53" "pow2 52 = 2 ^ 52" "pow2 1 = 2"
    by (simp_all add: pow2_def)
  have p53: "pow2 (e + 1) = 2 ^ 53 * q" and p52: "pow2 e = 2 ^ 52 * q"
    using pow2_add [of "e - 52" 53] pow2_add [of "e - 52" 52] by (simp_all add: q_def c ac_simps)
  have "pow2 (floor_log2 ?a + 1) \<le> pow2 (e + 1)" by (intro pow2_mono) (simp add: e_def)
  with b(2) have "?a < 2 ^ 53 * q" by (simp add: p53)
  with q have "?a / q \<le> of_int (2 ^ 53)" by (simp add: pos_divide_le_eq)
  then have m53: "m \<le> 2 ^ 53" unfolding m_def by (rule round_even_le)
  from a q have "of_int 0 \<le> ?a / q" by simp
  then have m0: "0 \<le> m" unfolding m_def by (rule round_even_ge)
  have yy: "js_number (of_int m * q)"
  proof (cases "m = 0")
    case True
    then show ?thesis by (simp add: js_number_def round64_0)
  next
    case False
    with m0 have mp: "0 < m" by simp
    show ?thesis
    proof (cases "m = 2 ^ 53")
      case True
      with ov have e2: "e + 1 \<le> 1023" by simp
      have eq: "of_int m * q = of_int (2 ^ 52) * pow2 (e + 1 - 52)"
        using pow2_add [of "e - 52" 1] by (simp add: True q_def c)
      have f: "floor_log2 (of_int (2 ^ 52) * pow2 (e + 1 - 52)) = e + 1"
        using pow2_add [of "e + 1 - 52" 52] pow2_add [of "e + 1 - 52" 53] pow2_pos [of "e + 1 - 52"]
        by (intro floor_log2_unique) (simp_all add: c ac_simps)
      have "round64 (of_int (2 ^ 52) * pow2 (e + 1 - 52)) = Some (of_int (2 ^ 52) * pow2 (e + 1 - 52))"
        using e1 e2 f by (intro round64_exact) simp_all
      then show ?thesis unfolding js_number_def eq .
    next
      case m53': False
      with m53 have lt: "m < 2 ^ 53" by simp
      from ov have e2: "e \<le> 1023" by simp
      from lt have "(of_int m :: rat) < of_int (2 ^ 53)" by (simp only: of_int_less_iff)
      with q have up: "of_int m * q < pow2 (e + 1)" by (simp add: p53)
      show ?thesis
      proof (cases "2 ^ 52 \<le> m")
        case True
        then have "(of_int (2 ^ 52) :: rat) \<le> of_int m" by (simp only: of_int_le_iff)
        with q have "pow2 e \<le> of_int m * q" by (simp add: p52)
        from floor_log2_unique [OF this up] have f: "floor_log2 (of_int m * pow2 (e - 52)) = e"
          by (simp add: q_def)
        have "round64 (of_int m * pow2 (e - 52)) = Some (of_int m * pow2 (e - 52))"
          using mp e1 e2 f m53' by (intro round64_exact) simp_all
        then show ?thesis by (simp add: js_number_def q_def)
      next
        case False
        then have m52: "m < 2 ^ 52" by simp
        have sub: "e = - 1022"
        proof (rule ccontr)
          assume "e \<noteq> - 1022"
          then have "floor_log2 ?a = e" by (simp add: e_def max_def split: if_splits)
          with b(1) have "pow2 e \<le> ?a" by simp
          then have "2 ^ 52 * q \<le> ?a" by (simp only: p52)
          with q have "of_int (2 ^ 52) \<le> ?a / q" by (simp add: pos_le_divide_eq)
          then have "2 ^ 52 \<le> m" unfolding m_def by (rule round_even_ge)
          with m52 show False by simp
        qed
        from m52 have "(of_int m :: rat) < of_int (2 ^ 52)" by (simp only: of_int_less_iff)
        with q have lt': "of_int m * q < pow2 e" by (simp add: p52)
        from mp q have "0 < of_int m * q" by simp
        from floor_log2_less [OF this lt'] have f: "floor_log2 (of_int m * pow2 (e - 52)) \<le> e"
          by (simp add: q_def)
        have "round64 (of_int m * pow2 (e - 52)) = Some (of_int m * pow2 (e - 52))"
          using mp e1 e2 f sub by (intro round64_exact) simp_all
        then show ?thesis by (simp add: js_number_def q_def)
      qed
    qed
  qed
  show ?thesis
  proof (cases "0 < x")
    case True
    with yy show ?thesis by (simp add: y)
  next
    case neg: False
    with False have "x < 0" by simp
    then have y': "y = - (of_int m * q)" by (simp add: y)
    have "round64 (- z) = map_option uminus (round64 z)" for z
      by (auto simp add: round64_def Let_def)
    with yy show ?thesis by (simp add: js_number_def y')
  qed
qed

lemma js_div_number: "js_div a b = Some y \<Longrightarrow> js_number y"
  by (auto simp add: js_div_def intro: round64_number split: if_splits)

lemma js_mul_number: "js_mul x b = Some y \<Longrightarrow> js_number y"
  by (auto simp add: js_mul_def intro: round64_number split: option.splits)

subsection \<open>Bar widths\<close>

lemma barWidth_near:
  assumes "0 \<le> p" and "p \<le> M" and "M \<noteq> 0"
  shows "width_near (js_mul (js_div p M) 100) (p / M * 100)"
proof -
  let ?x = "p / M"
  from assms have M: "0 < M" by simp
  with assms have x: "0 \<le> ?x" "?x \<le> 1" by simp_all
  have p1: "pow2 1 = 2" and p7: "pow2 7 = 128" and p53: "pow2 (- 53) = 1 / 2 ^ 53"
    and p47: "pow2 (- 47) = 1 / 2 ^ 47"
    by (simp_all add: pow2_def)
  from x have "\<bar>?x\<bar> < pow2 1" by (simp add: p1)
  from round64_small [OF _ _ this] obtain y where y: "round64 ?x = Some y"
    and ey: "\<bar>y - ?x\<bar> \<le> 1 / 2 ^ 53"
    by (auto simp: p53)
  from ey x have "\<bar>y\<bar> \<le> 1 + 1 / 2 ^ 53" by linarith
  then have "\<bar>y * 100\<bar> < pow2 7" by (simp add: p7 abs_mult)
  from round64_small [OF _ _ this] obtain w where w: "round64 (y * 100) = Some w"
    and ew: "\<bar>w - y * 100\<bar> \<le> 1 / 2 ^ 47"
    by (auto simp: p47)
  have "w - ?x * 100 = (w - y * 100) + (y - ?x) * 100" by (simp add: algebra_simps)
  then have "\<bar>w - ?x * 100\<bar> = \<bar>(w - y * 100) + (y - ?x) * 100\<bar>" by (rule arg_cong)
  also have "\<dots> \<le> \<bar>w - y * 100\<bar> + \<bar>(y - ?x) * 100\<bar>" by (rule abs_triangle_ineq)
  also have "\<dots> = \<bar>w - y * 100\<bar> + \<bar>y - ?x\<bar> * 100" by (simp only: abs_mult abs_numeral)
  also have "\<dots> \<le> 1 / 2 ^ 47 + 1 / 2 ^ 53 * 100"
    using ew ey by (intro add_mono mult_right_mono) simp_all
  also have "\<dots> \<le> 1 / 2 ^ 45" by simp
  finally have "\<bar>w - ?x * 100\<bar> \<le> 1 / 2 ^ 45" .
  with y w assms(3) show ?thesis by (simp add: width_near_def js_div_def js_mul_def)
qed

lemma barWidths_map:
  assumes "tops = topLanguages stats"
  shows "barWidths stats = map (\<lambda>l. js_mul (js_div (percent l) (maxLangPercent tops)) 100) tops"
  using assms by (simp add: barWidths_def barWidth_def Let_def)

lemma hd_percent: "tops \<noteq> [] \<Longrightarrow> percent (hd tops) = maxLangPercent tops"
  by (simp add: maxLangPercent_def hd_conv_nth)

lemma top_width: "M \<noteq> 0 \<Longrightarrow> js_mul (js_div M M) 100 = Some 100"
  by (simp add: js_div_def js_mul_def round64_1 round64_100)

lemma spec_retained_subset: "set (spec_retained ls) \<subseteq> set ls"
  using set_take_subset [of 6 "filter (\<lambda>l. \<not> (name l = ''Other'' \<or> total_seconds l = 0)) ls"]
  by (auto simp: spec_retained_def)

lemma percent_le_max:
  assumes "l \<in> set tops"
  shows "percent l \<le> spec_max_percent tops"
  unfolding spec_max_percent_def using assms by (intro Max_ge) simp_all

lemma example_widths:
  "js_mul (js_div 50 50) 100 = Some 100" "js_mul (js_div 30 50) 100 = Some 60"
  "js_mul (js_div 20 50) 100 = Some 40" "js_mul (js_div 7 50) 100 = Some (14 + 1 / 2 ^ 49)"
  by code_simp+

lemma example_numbers:
  "js_number 0" "js_number 7" "js_number 10" "js_number 12" "js_number 20" "js_number 30"
  "js_number 50"
  by code_simp+

lemma example_languages:
  assumes "map (\<lambda>l. (name l, total_seconds l, percent l)) ls =
             [(''Other'', 100, 10), (''Go'', 500, 50), (''Rust'', 300, 30), (''TS'', 200, 20)]"
    and "languages d = Some ls"
  shows "map name (topLanguages (Some d)) = [''Go'', ''Rust'', ''TS'']"
    and "barWidths (Some d) = [Some 100, Some 60, Some 40]"
proof -
  from assms(1) obtain l0 l1 l2 l3 where ls: "ls = [l0, l1, l2, l3]"
    and f: "name l0 = ''Other''" "name l1 = ''Go''" "name l2 = ''Rust''" "name l3 = ''TS''"
      "total_seconds l0 = 100" "total_seconds l1 = 500" "total_seconds l2 = 300" "total_seconds l3 = 200"
      "percent l0 = 10" "percent l1 = 50" "percent l2 = 30" "percent l3 = 20"
    by (auto simp: map_eq_Cons_conv)
  have tops: "topLanguages (Some d) = [l1, l2, l3]"
    by (simp add: topLanguages_def assms(2) ls f)
  show "map name (topLanguages (Some d)) = [''Go'', ''Rust'', ''TS'']"
    by (simp add: tops f)
  show "barWidths (Some d) = [Some 100, Some 60, Some 40]"
    by (simp add: barWidths_def tops maxLangPercent_def barWidth_def f example_widths)
qed

text \<open>
  Claim C4 as stated fails on a list that holds a single language of positive duration
  whose percent is \<open>0\<close>: the language is retained, the list is sorted, and the maximum
  percent of the retained set is \<open>0\<close>: the width of its bar is not a number, so the top
  bar is not full-width. It also fails where the arithmetic rounds: beside a language of
  50\%, the width of a language of 7\% is not \<open>14\<close> but the next number above it.
\<close>

theorem top_bar_counterexample:
  "percent_descending [lang ''Go'' 60 0] \<and>
   topLanguages (Some (stats_of [lang ''Go'' 60 0])) = [lang ''Go'' 60 0] \<and>
   spec_max_percent [lang ''Go'' 60 0] = 0 \<and>
   barWidths (Some (stats_of [lang ''Go'' 60 0])) = [None] \<and>
   hd (barWidths (Some (stats_of [lang ''Go'' 60 0]))) \<noteq> Some 100 \<and>
   percent_descending [lang ''Go'' 500 50, lang ''TS'' 70 7] \<and>
   barWidths (Some (stats_of [lang ''Go'' 500 50, lang ''TS'' 70 7])) =
     [Some 100, Some (14 + 1 / 2 ^ 49)] \<and>
   (7 :: rat) / 50 * 100 = 14"
proof -
  have a: "percent_descending [lang ''Go'' 60 0] \<and>
   topLanguages (Some (stats_of [lang ''Go'' 60 0])) = [lang ''Go'' 60 0] \<and>
   spec_max_percent [lang ''Go'' 60 0] = 0 \<and>
   barWidths (Some (stats_of [lang ''Go'' 60 0])) = [None] \<and>
   hd (barWidths (Some (stats_of [lang ''Go'' 60 0]))) \<noteq> Some 100"
    by (simp add: percent_descending_def topLanguages_def stats_of_def lang_def barWidths_def
        maxLangPercent_def barWidth_def spec_max_percent_def js_div_def js_mul_def)
  have b: "percent_descending [lang ''Go'' 500 50, lang ''TS'' 70 7]"
    by (simp add: percent_descending_def lang_def)
  have c: "barWidths (Some (stats_of [lang ''Go'' 500 50, lang ''TS'' 70 7])) =
     [Some 100, Some (14 + 1 / 2 ^ 49)]"
    by (simp add: topLanguages_def stats_of_def lang_def barWidths_def maxLangPercent_def
        barWidth_def example_widths)
  have d: "(7 :: rat) / 50 * 100 = 14" by simp
  from a b c d show ?thesis by (intro conjI) simp_all
qed

text \<open>
  Claim C4, amended. For every language list with non-negative durations, whose percents
  are JavaScript numbers, the retained set is the first six entries, in their original order, after removing the entries
  named \<^verbatim>\<open>"Other"\<close> or of zero duration. When the list is sorted by percent descending and
  the maximum percent of the (non-empty) retained set is not zero, the bar width of each
  retained entry is its percent divided by that maximum, times \<open>100\<close>, in the arithmetic of
  JavaScript numbers, where the quotient and the product are each rounded; the top bar is
  exactly full-width; and when no percent is negative, every width is within \<open>1 / 2 ^ 45\<close>
  of the exact value. From Other 10\%, Go 50\%, Rust 30\%, TS 20\% the retained set is Go,
  Rust, TS with bar widths \<open>100\<close>, \<open>60\<close>, \<open>40\<close>.
\<close>

theorem topLanguages_bar_widths:
  assumes "languages d = Some ls" and "\<forall>l \<in> set ls. 0 \<le> total_seconds l"
    and "\<forall>l \<in> set ls. js_number (percent l)"
  shows
    "topLanguages (Some d) = spec_retained ls \<and>
     (percent_descending ls \<and> spec_retained ls \<noteq> [] \<and> spec_max_percent (spec_retained ls) \<noteq> 0 \<longrightarrow>
        barWidths (Some d) =
          map (\<lambda>l. js_mul (js_div (percent l) (spec_max_percent (spec_retained ls))) 100)
            (spec_retained ls) \<and>
        hd (barWidths (Some d)) = Some 100 \<and>
        ((\<forall>l \<in> set ls. 0 \<le> percent l) \<longrightarrow>
           list_all2 (\<lambda>w l. width_near w (percent l / spec_max_percent (spec_retained ls) * 100))
             (barWidths (Some d)) (spec_retained ls))) \<and>
     (map (\<lambda>l. (name l, total_seconds l, percent l)) ls =
          [(''Other'', 100, 10), (''Go'', 500, 50), (''Rust'', 300, 30), (''TS'', 200, 20)] \<longrightarrow>
        map name (topLanguages (Some d)) = [''Go'', ''Rust'', ''TS''] \<and>
        barWidths (Some d) = [Some 100, Some 60, Some 40])"
proof (intro conjI impI)
  let ?M = "spec_max_percent (spec_retained ls)"
  show tops: "topLanguages (Some d) = spec_retained ls"
    by (rule topLanguages_retained [OF assms(2,1)])
  {
    assume a: "percent_descending ls \<and> spec_retained ls \<noteq> [] \<and> ?M \<noteq> 0"
    then have mx: "maxLangPercent (spec_retained ls) = ?M"
      by (intro percent_descending_max percent_descending_retained) simp_all
    from barWidths_map [OF tops [symmetric]] mx
    show w: "barWidths (Some d) =
          map (\<lambda>l. js_mul (js_div (percent l) ?M) 100) (spec_retained ls)"
      by simp
    from a have "hd (map (\<lambda>l. js_mul (js_div (percent l) ?M) 100) (spec_retained ls)) = Some 100"
      using hd_percent [of "spec_retained ls"] mx by (simp add: hd_map top_width)
    with w show "hd (barWidths (Some d)) = Some 100" by simp
    {
      assume p: "\<forall>l \<in> set ls. 0 \<le> percent l"
      have "width_near (js_mul (js_div (percent l) ?M) 100) (percent l / ?M * 100)"
        if "l \<in> set (spec_retained ls)" for l
        using that p spec_retained_subset [of ls] a
        by (intro barWidth_near percent_le_max) auto
      then show "list_all2 (\<lambda>w l. width_near w (percent l / ?M * 100))
             (barWidths (Some d)) (spec_retained ls)"
        unfolding w by (simp add: list_all2_map1 list_all2_same)
    }
  }
  {
    assume "map (\<lambda>l. (name l, total_seconds l, percent l)) ls =
          [(''Other'', 100, 10), (''Go'', 500, 50), (''Rust'', 300, 30), (''TS'', 200, 20)]"
    from example_languages [OF this assms(1)]
    show "map name (topLanguages (Some d)) = [''Go'', ''Rust'', ''TS'']"
      and "barWidths (Some d) = [Some 100, Some 60, Some 40]" .
  }
qed

theorem topLanguages_bar_widths_witness:
  "languages (stats_of spec_languages) = Some spec_languages \<and>
   list_all (\<lambda>l. 0 \<le> total_seconds l) spec_languages \<and>
   list_all (\<lambda>l. js_number (percent l)) spec_languages \<and>
   map name (topLanguages (Some (stats_of spec_languages))) = [''Go'', ''Rust'', ''TS''] \<and>
   barWidths (Some (stats_of spec_languages)) = [Some 100, Some 60, Some 40] \<and>
   languages (stats_of sorted_languages) = Some sorted_languages \<and>
   list_all (\<lambda>l. 0 \<le> total_seconds l) sorted_languages \<and>
   list_all (\<lambda>l. js_number (percent l)) sorted_languages \<and>
   list_all (\<lambda>l. 0 \<le> percent l) sorted_languages \<and>
   percent_descending sorted_languages \<and>
   map name (spec_retained sorted_languages) = [''Go'', ''Rust'', ''TS''] \<and>
   spec_max_percent (spec_retained sorted_languages) = 50 \<and>
   barWidths (Some (stats_of sorted_languages)) = [Some 100, Some 60, Some (14 + 1 / 2 ^ 49)] \<and>
   hd (barWidths (Some (stats_of sorted_languages))) = Some 100 \<and>
   list_all2 width_near (barWidths (Some (stats_of sorted_languages))) [100, 60, 14]"
proof -
  have l1: "languages (stats_of spec_languages) = Some spec_languages"
    and l2: "languages (stats_of sorted_languages) = Some sorted_languages"
    by (simp_all add: stats_of_def)
  have n1: "\<forall>l \<in> set spec_languages. 0 \<le> total_seconds l"
    and n2: "\<forall>l \<in> set sorted_languages. 0 \<le> total_seconds l"
    and p2: "\<forall>l \<in> set sorted_languages. 0 \<le> percent l"
    and j1: "\<forall>l \<in> set spec_languages. js_number (percent l)"
    and j2: "\<forall>l \<in> set sorted_languages. js_number (percent l)"
    by (simp_all add: spec_languages_def sorted_languages_def lang_def example_numbers)
  have m1: "map (\<lambda>l. (name l, total_seconds l, percent l)) spec_languages =
          [(''Other'', 100, 10), (''Go'', 500, 50), (''Rust'', 300, 30), (''TS'', 200, 20)]"
    by (simp add: spec_languages_def lang_def)
  have d2: "percent_descending sorted_languages"
    by (simp add: percent_descending_def sorted_languages_def lang_def)
  have r2: "spec_retained sorted_languages = [lang ''Go'' 500 50, lang ''Rust'' 300 30, lang ''TS'' 70 7]"
    by (simp add: spec_retained_def sorted_languages_def lang_def)
  have x2: "spec_max_percent (spec_retained sorted_languages) = 50"
    by (simp add: r2 spec_max_percent_def lang_def)
  have c2: "percent_descending sorted_languages \<and> spec_retained sorted_languages \<noteq> [] \<and>
      spec_max_percent (spec_retained sorted_languages) \<noteq> 0"
    using d2 by (simp add: x2) (simp add: r2)
  note t1 = topLanguages_bar_widths [OF l1 n1 j1]
  from t1 [THEN conjunct2, THEN conjunct2, THEN mp, OF m1]
  have e1: "map name (topLanguages (Some (stats_of spec_languages))) = [''Go'', ''Rust'', ''TS'']"
    "barWidths (Some (stats_of spec_languages)) = [Some 100, Some 60, Some 40]"
    by simp_all
  note t2 = topLanguages_bar_widths [OF l2 n2 j2, THEN conjunct2, THEN conjunct1, THEN mp, OF c2]
  from t2 [THEN conjunct1]
  have e2: "barWidths (Some (stats_of sorted_languages)) = [Some 100, Some 60, Some (14 + 1 / 2 ^ 49)]"
    by (simp add: x2) (simp add: r2 lang_def example_widths)
  note h2 = t2 [THEN conjunct2, THEN conjunct1]
  from t2 [THEN conjunct2, THEN conjunct2, THEN mp, OF p2]
  have near: "list_all2 width_near (barWidths (Some (stats_of sorted_languages))) [100, 60, 14]"
    by (simp add: x2) (simp add: r2 lang_def list_all2_Cons2)
  have r2': "map name (spec_retained sorted_languages) = [''Go'', ''Rust'', ''TS'']"
    by (simp add: r2 lang_def)
  from l1 l2 n1 n2 j1 j2 p2 d2 r2' x2 e1 e2 h2 near show ?thesis
    by (simp add: list_all_iff)
qed

section \<open>Route handlers\<close>

lemma configured_iff: "configured v \<longleftrightarrow> v \<noteq> None \<and> v \<noteq> Some []"
  by (cases v) (simp_all add: configured_def)

text \<open>
  Claim C5. When the GitHub token is not configured, the calendar handler answers with
  status \<open>500\<close> and a JSON error body and makes no call of \<^verbatim>\<open>fetch\<close>; so does the
  time-tracking handler when the Hackatime username is not configured. With a token the
  calendar handler makes its one call.
\<close>

theorem missing_configuration_no_fetch:
  "(\<not> configured (GITHUB_TOKEN env) \<longrightarrow>
      GET_github env fetch =
        (Inr \<lparr>status = 500, json_body = JObject [(''error'', JString ''GitHub token not configured'')]\<rparr>,
         [])) \<and>
   (\<not> configured (HACKATIME_USERNAME env) \<longrightarrow>
      GET_hackatime env tza now1 now2 fetch rangeQuery =
        (Inr \<lparr>status = 500,
              json_body = JObject [(''error'', JString ''Hackatime username not configured'')]\<rparr>,
         [])) \<and>
   (configured (GITHUB_TOKEN env) \<longrightarrow>
      snd (GET_github env fetch) = [github_call (token_of env)])"
  by (simp add: GET_github_def GET_hackatime_def error_response_def Let_def)

theorem missing_configuration_no_fetch_witness:
  "\<not> configured (GITHUB_TOKEN (test_env\<lparr>GITHUB_TOKEN := None\<rparr>)) \<and>
   GET_github (test_env\<lparr>GITHUB_TOKEN := None\<rparr>) (answers JNull) =
     (Inr \<lparr>status = 500, json_body = JObject [(''error'', JString ''GitHub token not configured'')]\<rparr>,
      []) \<and>
   \<not> configured (HACKATIME_USERNAME (test_env\<lparr>HACKATIME_USERNAME := None\<rparr>)) \<and>
   GET_hackatime (test_env\<lparr>HACKATIME_USERNAME := None\<rparr>) utc_zone clock_2024 clock_2024
       (answers JNull) (Some ''last_7_days'') =
     (Inr \<lparr>status = 500,
           json_body = JObject [(''error'', JString ''Hackatime username not configured'')]\<rparr>,
      []) \<and>
   configured (GITHUB_TOKEN test_env) \<and>
   length (snd (GET_github test_env (answers JNull))) = 1"
proof -
  have a: "\<not> configured (GITHUB_TOKEN (test_env\<lparr>GITHUB_TOKEN := None\<rparr>))"
    and b: "\<not> configured (HACKATIME_USERNAME (test_env\<lparr>HACKATIME_USERNAME := None\<rparr>))"
    and c: "configured (GITHUB_TOKEN test_env)"
    by (simp_all add: configured_def test_env_def)
  from a b c
    missing_configuration_no_fetch [of "test_env\<lparr>GITHUB_TOKEN := None\<rparr>" "answers JNull"]
    missing_configuration_no_fetch [of "test_env\<lparr>HACKATIME_USERNAME := None\<rparr>"
      "answers JNull" utc_zone clock_2024 clock_2024 "Some ''last_7_days''"]
    missing_configuration_no_fetch [of test_env "answers JNull"]
  show ?thesis by simp
qed


lemma getDateRange_start:
  assumes "rangeStart tza now1 now2 r = Some s"
  shows "getDateRange tza now1 now2 r = Inr \<lparr>start_date = isoDate s, end_date = isoDate now1\<rparr>"
  using assms by (simp add: getDateRange_def fmt_def)

lemma GET_hackatime_call:
  assumes "configured (HACKATIME_USERNAME env)"
    and "getDateRange tza now1 now2 (rangeParam rangeQuery) = Inr dr"
  shows "snd (GET_hackatime env tza now1 now2 fetch rangeQuery)
           = [hackatime_call (username_of env) (HACKATIME_API_KEY env) dr]"
  using assms by (simp add: GET_hackatime_def Let_def)

lemma GET_hackatime_payload:
  assumes "configured (HACKATIME_USERNAME env)"
    and "getDateRange tza now1 now2 (rangeParam rangeQuery) = Inr dr"
    and "\<forall>call. fetch call = Resolves response" and "ok response" and "payload response = Some p"
  shows "fst (GET_hackatime env tza now1 now2 fetch rangeQuery) =
           Inr (case hackatime_stats p of
                  Inl e \<Rightarrow> error_response ''Failed to fetch Hackatime data''
                | Inr stats \<Rightarrow> json_response stats)"
  using assms by (simp add: GET_hackatime_def Let_def split: sum.splits)

lemma utc_zone_spread: "zone_spread utc_zone"
  by (simp add: zone_spread_def utc_zone_def msPerDay_def)

lemma hackatime_stats_eq:
  "hackatime_stats p =
     (if p = JNull then Inl TypeError
      else Inr (case field p ''data'' of None \<Rightarrow> p | Some d \<Rightarrow> if truthy d then d else p))"
  by (cases p) (simp_all add: hackatime_stats_def split: option.splits)

text \<open>
  Claim C6 as stated fails in four ways. At noon of 2024-08-31, in the zone of UTC,
  the window of \<^verbatim>\<open>last_6_months\<close> starts on 2024-03-02: the day 31 that February lacks
  runs on into March, so the start is not in the month six months back. In a zone with
  daylight saving, five days after the change, the window of \<^verbatim>\<open>last_7_days\<close> starts on
  2024-03-09 and ends on 2024-03-15, while the date seven days before the current time
  is 2024-03-08. When midnight falls between the two readings of the clock, the window of
  \<^verbatim>\<open>last_7_days\<close> starts on 2024-02-24 and ends on 2024-01-31. In a zone ahead of UTC, at
  02:00 local time on 2024-03-01, the window of \<^verbatim>\<open>last_6_months\<close> runs from 2023-08-31 to
  2024-02-29: the months are counted on the local calendar and the dates printed in UTC.
\<close>

theorem getDateRange_overflow_counterexample:
  "getDateRange utc_zone clock_aug31 clock_aug31 ''last_6_months'' =
     Inr \<lparr>start_date = ''2024-03-02'', end_date = ''2024-08-31''\<rparr> \<and>
   rangeStart utc_zone clock_aug31 clock_aug31 ''last_6_months'' = Some 1709380800000 \<and>
   (YearFromTime clock_aug31, MonthFromTime clock_aug31) = (2024, 7) \<and>
   (YearFromTime 1709380800000, MonthFromTime 1709380800000) = (2024, 2) \<and>
   \<not> months_back 6 (LocalTime utc_zone clock_aug31) (LocalTime utc_zone 1709380800000) \<and>
   getDateRange dst_zone clock_after_change clock_after_change ''last_7_days'' =
     Inr \<lparr>start_date = ''2024-03-09'', end_date = ''2024-03-15''\<rparr> \<and>
   isoDate (clock_after_change - 7 * msPerDay) = ''2024-03-08'' \<and>
   getDateRange utc_zone clock_before_midnight clock_midnight ''last_7_days'' =
     Inr \<lparr>start_date = ''2024-02-24'', end_date = ''2024-01-31''\<rparr> \<and>
   getDateRange india_zone clock_feb29 clock_feb29 ''last_6_months'' =
     Inr \<lparr>start_date = ''2023-08-31'', end_date = ''2024-02-29''\<rparr>"
proof -
  have e1: "getDateRange utc_zone clock_aug31 clock_aug31 ''last_6_months'' =
     Inr \<lparr>start_date = ''2024-03-02'', end_date = ''2024-08-31''\<rparr>" by code_simp
  have e2: "rangeStart utc_zone clock_aug31 clock_aug31 ''last_6_months'' = Some 1709380800000"
    by code_simp
  have e3: "(YearFromTime clock_aug31, MonthFromTime clock_aug31) = (2024, 7)" by code_simp
  have e4: "(YearFromTime 1709380800000, MonthFromTime 1709380800000) = (2024, 2)" by code_simp
  have e5: "\<not> months_back 6 (LocalTime utc_zone clock_aug31) (LocalTime utc_zone 1709380800000)"
    by code_simp
  have e6: "getDateRange dst_zone clock_after_change clock_after_change ''last_7_days'' =
     Inr \<lparr>start_date = ''2024-03-09'', end_date = ''2024-03-15''\<rparr>" by code_simp
  have e7: "isoDate (clock_after_change - 7 * msPerDay) = ''2024-03-08''" by code_simp
  have e8: "getDateRange utc_zone clock_before_midnight clock_midnight ''last_7_days'' =
     Inr \<lparr>start_date = ''2024-02-24'', end_date = ''2024-01-31''\<rparr>" by code_simp
  have e9: "getDateRange india_zone clock_feb29 clock_feb29 ''last_6_months'' =
     Inr \<lparr>start_date = ''2023-08-31'', end_date = ''2024-02-29''\<rparr>" by code_simp
  show ?thesis by (intro conjI e1 e2 e3 e4 e5 e6 e7 e8 e9)
qed

text \<open>
  Claim C6, amended. For two clock readings between 1970 and the year 9999, a zone whose
  offsets differ by at most two days, and every range key, \<^verbatim>\<open>getDateRange\<close> returns a
  window (it never throws) whose end is the UTC date of the first reading and whose start
  is the UTC date of a time \<open>s\<close>, the time at which the local clock shows \<open>L\<close>. When both
  readings fall on the same local day, \<open>L\<close> is the local time of the second reading taken
  \<open>7\<close> days back for \<^verbatim>\<open>last_7_days\<close> and \<open>30\<close> days back for \<^verbatim>\<open>last_30_days\<close>, and \<open>s\<close> itself
  is that reading less \<open>7\<close> or \<open>30\<close> times \<open>24\<close> hours when the zone offset at the start is the
  offset now; and \<open>L\<close> is the same day of the month at the same time of day \<open>6\<close> months back
  for \<^verbatim>\<open>last_6_months\<close>, \<open>12\<close> months back for \<^verbatim>\<open>last_year\<close>, and \<open>120\<close> months back for
  \<^verbatim>\<open>all_time\<close> and for every key that is not one of the four, provided the month that far
  back has that day. An absent or empty parameter is read as \<^verbatim>\<open>all_time\<close>. Whatever the
  parameter, the configured handler goes on to its upstream call with that window.
\<close>

theorem getDateRange_windows:
  assumes "0 \<le> now1" and "now1 < 253402300800000" and "0 \<le> now2" and "now2 < 253402300800000"
    and "zone_spread tza"
  shows
    "(\<exists>s L. rangeStart tza now1 now2 r = Some s \<and>
          getDateRange tza now1 now2 r = Inr \<lparr>start_date = isoDate s, end_date = isoDate now1\<rparr> \<and>
          s = UTC tza L \<and>
          (Day (LocalTime tza now1) = Day (LocalTime tza now2) \<longrightarrow>
             (r = ''last_7_days'' \<longrightarrow> L = LocalTime tza now2 - 7 * msPerDay) \<and>
             (r = ''last_30_days'' \<longrightarrow> L = LocalTime tza now2 - 30 * msPerDay) \<and>
             (r = ''last_6_months'' \<and> day_exists 6 (LocalTime tza now2) \<longrightarrow>
                months_back 6 (LocalTime tza now2) L) \<and>
             (r = ''last_year'' \<and> day_exists 12 (LocalTime tza now2) \<longrightarrow>
                months_back 12 (LocalTime tza now2) L) \<and>
             ((r = ''all_time'' \<or> \<not> known_range r) \<and> day_exists 120 (LocalTime tza now2) \<longrightarrow>
                months_back 120 (LocalTime tza now2) L) \<and>
             (tza L False = tza now2 True \<longrightarrow>
                (r = ''last_7_days'' \<longrightarrow> s = now2 - 7 * msPerDay) \<and>
                (r = ''last_30_days'' \<longrightarrow> s = now2 - 30 * msPerDay)))) \<and>
     rangeParam None = ''all_time'' \<and>
     rangeParam (Some []) = ''all_time'' \<and>
     (q \<noteq> [] \<longrightarrow> rangeParam (Some q) = q) \<and>
     (configured (HACKATIME_USERNAME env) \<longrightarrow>
        (\<exists>dr. getDateRange tza now1 now2 (rangeParam rangeQuery) = Inr dr \<and>
              snd (GET_hackatime env tza now1 now2 fetch rangeQuery) =
                [hackatime_call (username_of env) (HACKATIME_API_KEY env) dr]))"
proof -
  let ?L = "localStart tza now1 now2 r" and ?lt = "LocalTime tza now2"
  note s = rangeStart_total [OF assms, of r]
  have win: "Day (LocalTime tza now1) = Day ?lt \<longrightarrow>
             (r = ''last_7_days'' \<longrightarrow> ?L = ?lt - 7 * msPerDay) \<and>
             (r = ''last_30_days'' \<longrightarrow> ?L = ?lt - 30 * msPerDay) \<and>
             (r = ''last_6_months'' \<and> day_exists 6 ?lt \<longrightarrow> months_back 6 ?lt ?L) \<and>
             (r = ''last_year'' \<and> day_exists 12 ?lt \<longrightarrow> months_back 12 ?lt ?L) \<and>
             ((r = ''all_time'' \<or> \<not> known_range r) \<and> day_exists 120 ?lt \<longrightarrow>
                months_back 120 ?lt ?L) \<and>
             (tza ?L False = tza now2 True \<longrightarrow>
                (r = ''last_7_days'' \<longrightarrow> UTC tza ?L = now2 - 7 * msPerDay) \<and>
                (r = ''last_30_days'' \<longrightarrow> UTC tza ?L = now2 - 30 * msPerDay))"
  proof
    assume d: "Day (LocalTime tza now1) = Day ?lt"
    note w = localStart_same_day [OF d, of r]
    have exact: "tza ?L False = tza now2 True \<longrightarrow>
                (r = ''last_7_days'' \<longrightarrow> UTC tza ?L = now2 - 7 * msPerDay) \<and>
                (r = ''last_30_days'' \<longrightarrow> UTC tza ?L = now2 - 30 * msPerDay)"
    proof (intro impI conjI)
      assume o: "tza ?L False = tza now2 True"
      { assume "r = ''last_7_days''"
        with w(1) have "?L = ?lt - 7 * msPerDay" by (rule mp)
        with o show "UTC tza ?L = now2 - 7 * msPerDay" by (simp add: UTC_def LocalTime_def) }
      { assume "r = ''last_30_days''"
        with w(2) have "?L = ?lt - 30 * msPerDay" by (rule mp)
        with o show "UTC tza ?L = now2 - 30 * msPerDay" by (simp add: UTC_def LocalTime_def) }
    qed
    show "(r = ''last_7_days'' \<longrightarrow> ?L = ?lt - 7 * msPerDay) \<and>
             (r = ''last_30_days'' \<longrightarrow> ?L = ?lt - 30 * msPerDay) \<and>
             (r = ''last_6_months'' \<and> day_exists 6 ?lt \<longrightarrow> months_back 6 ?lt ?L) \<and>
             (r = ''last_year'' \<and> day_exists 12 ?lt \<longrightarrow> months_back 12 ?lt ?L) \<and>
             ((r = ''all_time'' \<or> \<not> known_range r) \<and> day_exists 120 ?lt \<longrightarrow>
                months_back 120 ?lt ?L) \<and>
             (tza ?L False = tza now2 True \<longrightarrow>
                (r = ''last_7_days'' \<longrightarrow> UTC tza ?L = now2 - 7 * msPerDay) \<and>
                (r = ''last_30_days'' \<longrightarrow> UTC tza ?L = now2 - 30 * msPerDay))"
      by (intro conjI w exact)
  qed
  have first: "\<exists>s L. rangeStart tza now1 now2 r = Some s \<and>
          getDateRange tza now1 now2 r = Inr \<lparr>start_date = isoDate s, end_date = isoDate now1\<rparr> \<and>
          s = UTC tza L \<and>
          (Day (LocalTime tza now1) = Day (LocalTime tza now2) \<longrightarrow>
             (r = ''last_7_days'' \<longrightarrow> L = LocalTime tza now2 - 7 * msPerDay) \<and>
             (r = ''last_30_days'' \<longrightarrow> L = LocalTime tza now2 - 30 * msPerDay) \<and>
             (r = ''last_6_months'' \<and> day_exists 6 (LocalTime tza now2) \<longrightarrow>
                months_back 6 (LocalTime tza now2) L) \<and>
             (r = ''last_year'' \<and> day_exists 12 (LocalTime tza now2) \<longrightarrow>
                months_back 12 (LocalTime tza now2) L) \<and>
             ((r = ''all_time'' \<or> \<not> known_range r) \<and> day_exists 120 (LocalTime tza now2) \<longrightarrow>
                months_back 120 (LocalTime tza now2) L) \<and>
             (tza L False = tza now2 True \<longrightarrow>
                (r = ''last_7_days'' \<longrightarrow> s = now2 - 7 * msPerDay) \<and>
                (r = ''last_30_days'' \<longrightarrow> s = now2 - 30 * msPerDay)))"
    by (intro exI [of _ "UTC tza ?L"] exI [of _ ?L] conjI s getDateRange_start [OF s] refl win)
  have param: "rangeParam None = ''all_time''" "rangeParam (Some []) = ''all_time''"
    "q \<noteq> [] \<longrightarrow> rangeParam (Some q) = q"
    by (simp_all add: rangeParam_def)
  have call: "configured (HACKATIME_USERNAME env) \<longrightarrow>
        (\<exists>dr. getDateRange tza now1 now2 (rangeParam rangeQuery) = Inr dr \<and>
              snd (GET_hackatime env tza now1 now2 fetch rangeQuery) =
                [hackatime_call (username_of env) (HACKATIME_API_KEY env) dr])"
  proof
    assume c: "configured (HACKATIME_USERNAME env)"
    note dr = getDateRange_start [OF rangeStart_total [OF assms, of "rangeParam rangeQuery"]]
    show "\<exists>dr. getDateRange tza now1 now2 (rangeParam rangeQuery) = Inr dr \<and>
              snd (GET_hackatime env tza now1 now2 fetch rangeQuery) =
                [hackatime_call (username_of env) (HACKATIME_API_KEY env) dr]"
      by (intro exI conjI) (rule dr, rule GET_hackatime_call [OF c dr])
  qed
  show ?thesis by (intro conjI first param call)
qed

theorem getDateRange_windows_witness:
  "0 \<le> clock_2024 \<and> clock_2024 < 253402300800000 \<and> zone_spread india_zone \<and>
   Day (LocalTime india_zone clock_2024) = Day (LocalTime india_zone clock_2024) \<and>
   getDateRange india_zone clock_2024 clock_2024 ''last_7_days'' =
     Inr \<lparr>start_date = isoDate (clock_2024 - 7 * msPerDay), end_date = isoDate clock_2024\<rparr> \<and>
   isoDate clock_2024 = ''2024-03-15'' \<and>
   isoDate (clock_2024 - 7 * msPerDay) = ''2024-03-08'' \<and>
   getDateRange india_zone clock_2024 clock_2024 ''last_30_days'' =
     Inr \<lparr>start_date = ''2024-02-14'', end_date = ''2024-03-15''\<rparr> \<and>
   day_exists 6 (LocalTime india_zone clock_2024) \<and>
   rangeStart india_zone clock_2024 clock_2024 ''last_6_months'' = Some 1694775200000 \<and>
   months_back 6 (LocalTime india_zone clock_2024) 1694795000000 \<and>
   getDateRange india_zone clock_2024 clock_2024 ''last_6_months'' =
     Inr \<lparr>start_date = ''2023-09-15'', end_date = ''2024-03-15''\<rparr> \<and>
   getDateRange india_zone clock_2024 clock_2024 ''last_year'' =
     Inr \<lparr>start_date = ''2023-03-15'', end_date = ''2024-03-15''\<rparr> \<and>
   getDateRange india_zone clock_2024 clock_2024 ''all_time'' =
     Inr \<lparr>start_date = ''2014-03-15'', end_date = ''2024-03-15''\<rparr> \<and>
   getDateRange india_zone clock_2024 clock_2024 ''yesterday'' =
     Inr \<lparr>start_date = ''2014-03-15'', end_date = ''2024-03-15''\<rparr> \<and>
   configured (HACKATIME_USERNAME test_env) \<and>
   length (snd (GET_hackatime test_env india_zone clock_2024 clock_2024 (answers JNull)
     (Some ''yesterday''))) = 1"
proof -
  let ?lt = "LocalTime india_zone clock_2024"
  have h: "0 \<le> clock_2024" "clock_2024 < 253402300800000"
    by (simp_all add: clock_2024_def)
  have c: "configured (HACKATIME_USERNAME test_env)"
    by (simp add: configured_def test_env_def)
  have z: "zone_spread india_zone"
    by (simp add: zone_spread_def india_zone_def msPerDay_def)
  have d: "Day ?lt = Day ?lt" by (rule refl)
  have off: "india_zone L False = india_zone clock_2024 True" for L
    by (simp add: india_zone_def)
  have utc: "UTC india_zone L = L - 19800000" for L
    by (simp add: UTC_def india_zone_def)
  note t = getDateRange_windows [OF h h z, of "''last_7_days''" "''all_time''" test_env
      "Some ''yesterday''" "answers JNull"]
  from t [THEN conjunct1] obtain s L
    where g: "getDateRange india_zone clock_2024 clock_2024 ''last_7_days'' =
        Inr \<lparr>start_date = isoDate s, end_date = isoDate clock_2024\<rparr>"
      and w: "Day ?lt = Day ?lt \<longrightarrow>
             (''last_7_days'' = ''last_7_days'' \<longrightarrow> L = ?lt - 7 * msPerDay) \<and>
             (''last_7_days'' = ''last_30_days'' \<longrightarrow> L = ?lt - 30 * msPerDay) \<and>
             (''last_7_days'' = ''last_6_months'' \<and> day_exists 6 ?lt \<longrightarrow> months_back 6 ?lt L) \<and>
             (''last_7_days'' = ''last_year'' \<and> day_exists 12 ?lt \<longrightarrow> months_back 12 ?lt L) \<and>
             ((''last_7_days'' = ''all_time'' \<or> \<not> known_range ''last_7_days'') \<and>
                day_exists 120 ?lt \<longrightarrow> months_back 120 ?lt L) \<and>
             (india_zone L False = india_zone clock_2024 True \<longrightarrow>
                (''last_7_days'' = ''last_7_days'' \<longrightarrow> s = clock_2024 - 7 * msPerDay) \<and>
                (''last_7_days'' = ''last_30_days'' \<longrightarrow> s = clock_2024 - 30 * msPerDay))"
    by (elim exE conjE) (rule that)
  note w' = w [THEN mp, OF d]
  note s7 = w' [THEN conjunct2, THEN conjunct2, THEN conjunct2, THEN conjunct2, THEN conjunct2,
      THEN mp, OF off, THEN conjunct1, THEN mp, OF refl]
  from g have a: "getDateRange india_zone clock_2024 clock_2024 ''last_7_days'' =
     Inr \<lparr>start_date = isoDate (clock_2024 - 7 * msPerDay), end_date = isoDate clock_2024\<rparr>"
    unfolding s7 .
  have e0: "day_exists 6 ?lt" by code_simp
  have r6: "rangeStart india_zone clock_2024 clock_2024 ''last_6_months'' = Some 1694775200000"
    by code_simp
  note t6 = getDateRange_windows [OF h h z, of "''last_6_months''" "''all_time''" test_env
      "Some ''yesterday''" "answers JNull"]
  from t6 [THEN conjunct1] obtain s6 L6
    where r6': "rangeStart india_zone clock_2024 clock_2024 ''last_6_months'' = Some s6"
      and u6: "s6 = UTC india_zone L6"
      and w6: "Day ?lt = Day ?lt \<longrightarrow>
             (''last_6_months'' = ''last_7_days'' \<longrightarrow> L6 = ?lt - 7 * msPerDay) \<and>
             (''last_6_months'' = ''last_30_days'' \<longrightarrow> L6 = ?lt - 30 * msPerDay) \<and>
             (''last_6_months'' = ''last_6_months'' \<and> day_exists 6 ?lt \<longrightarrow> months_back 6 ?lt L6) \<and>
             (''last_6_months'' = ''last_year'' \<and> day_exists 12 ?lt \<longrightarrow> months_back 12 ?lt L6) \<and>
             ((''last_6_months'' = ''all_time'' \<or> \<not> known_range ''last_6_months'') \<and>
                day_exists 120 ?lt \<longrightarrow> months_back 120 ?lt L6) \<and>
             (india_zone L6 False = india_zone clock_2024 True \<longrightarrow>
                (''last_6_months'' = ''last_7_days'' \<longrightarrow> s6 = clock_2024 - 7 * msPerDay) \<and>
                (''last_6_months'' = ''last_30_days'' \<longrightarrow> s6 = clock_2024 - 30 * msPerDay))"
    by (elim exE conjE) (rule that)
  from r6 r6' u6 have L6: "L6 = 1694795000000" by (simp add: utc)
  note m6 = w6 [THEN mp, OF d, THEN conjunct2, THEN conjunct2, THEN conjunct1, THEN mp,
      OF conjI [OF refl e0]]
  have b6: "months_back 6 ?lt 1694795000000" using m6 unfolding L6 .
  from t [THEN conjunct2, THEN conjunct2, THEN conjunct2, THEN conjunct2, THEN mp, OF c]
  obtain dr where "snd (GET_hackatime test_env india_zone clock_2024 clock_2024 (answers JNull)
        (Some ''yesterday''))
      = [hackatime_call (username_of test_env) (HACKATIME_API_KEY test_env) dr]"
    by (elim exE conjE) (rule that)
  then have b: "length (snd (GET_hackatime test_env india_zone clock_2024 clock_2024 (answers JNull)
     (Some ''yesterday''))) = 1"
    by simp
  have e1: "isoDate clock_2024 = ''2024-03-15''" by code_simp
  have e2: "isoDate (clock_2024 - 7 * msPerDay) = ''2024-03-08''" by code_simp
  have e3: "getDateRange india_zone clock_2024 clock_2024 ''last_30_days'' =
     Inr \<lparr>start_date = ''2024-02-14'', end_date = ''2024-03-15''\<rparr>" by code_simp
  have e4: "getDateRange india_zone clock_2024 clock_2024 ''last_6_months'' =
     Inr \<lparr>start_date = ''2023-09-15'', end_date = ''2024-03-15''\<rparr>" by code_simp
  have e5: "getDateRange india_zone clock_2024 clock_2024 ''last_year'' =
     Inr \<lparr>start_date = ''2023-03-15'', end_date = ''2024-03-15''\<rparr>" by code_simp
  have e6: "getDateRange india_zone clock_2024 clock_2024 ''all_time'' =
     Inr \<lparr>start_date = ''2014-03-15'', end_date = ''2024-03-15''\<rparr>" by code_simp
  have e7: "getDateRange india_zone clock_2024 clock_2024 ''yesterday'' =
     Inr \<lparr>start_date = ''2014-03-15'', end_date = ''2024-03-15''\<rparr>" by code_simp
  show ?thesis by (intro conjI h z d a e1 e2 e3 e0 r6 b6 e4 e5 e6 e7 c b)
qed

text \<open>
  Claim C7 as stated fails when the upstream answers \<^verbatim>\<open>{"data": null}\<close>: the field
  \<^verbatim>\<open>data\<close> is present, and the handler returns the whole payload, not the field.
\<close>

theorem hackatime_data_counterexample:
  "field (JObject [(''data'', JNull)]) ''data'' = Some JNull \<and>
   fst (GET_hackatime test_env utc_zone clock_2024 clock_2024
          (answers (JObject [(''data'', JNull)])) None) =
     Inr \<lparr>status = 200, json_body = JObject [(''data'', JNull)]\<rparr> \<and>
   JObject [(''data'', JNull)] \<noteq> JNull"
  by code_simp

text \<open>
  Claim C7, amended. For every successful upstream response whose payload is not
  \<^verbatim>\<open>null\<close>, the time-tracking handler returns the payload's \<^verbatim>\<open>data\<close> field when that field
  is present and truthy, as every object is, and returns the raw payload unchanged when
  the field is absent or holds a falsy value.
\<close>

theorem hackatime_returns_data_or_payload:
  assumes "configured (HACKATIME_USERNAME env)"
    and "0 \<le> now1" and "now1 < 253402300800000" and "0 \<le> now2" and "now2 < 253402300800000"
    and "zone_spread tza"
    and "\<forall>call. fetch call = Resolves response" and "ok response" and "payload response = Some p"
    and "p \<noteq> JNull"
  shows
    "(\<forall>d. field p ''data'' = Some d \<and> truthy d \<longrightarrow>
        fst (GET_hackatime env tza now1 now2 fetch rangeQuery) = Inr \<lparr>status = 200, json_body = d\<rparr>) \<and>
     (\<forall>kvs. field p ''data'' = Some (JObject kvs) \<longrightarrow>
        fst (GET_hackatime env tza now1 now2 fetch rangeQuery)
          = Inr \<lparr>status = 200, json_body = JObject kvs\<rparr>) \<and>
     (field p ''data'' = None \<or> (\<exists>d. field p ''data'' = Some d \<and> \<not> truthy d) \<longrightarrow>
        fst (GET_hackatime env tza now1 now2 fetch rangeQuery) = Inr \<lparr>status = 200, json_body = p\<rparr>)"
proof -
  note s = rangeStart_total [OF assms(2-6), of "rangeParam rangeQuery"]
  from GET_hackatime_payload [OF assms(1) getDateRange_start [OF s] assms(7-9)] assms(10)
  have "fst (GET_hackatime env tza now1 now2 fetch rangeQuery) =
      Inr (json_response (case field p ''data'' of None \<Rightarrow> p | Some d \<Rightarrow> if truthy d then d else p))"
    by (simp add: hackatime_stats_eq)
  then show ?thesis by (auto simp: json_response_def)
qed

theorem hackatime_returns_data_or_payload_witness:
  "configured (HACKATIME_USERNAME test_env) \<and> 0 \<le> clock_2024 \<and> clock_2024 < 253402300800000 \<and>
   zone_spread utc_zone \<and>
   ok \<lparr>ok = True, upstream_status = 200, payload = Some wrapped_stats\<rparr> \<and>
   wrapped_stats \<noteq> JNull \<and>
   field wrapped_stats ''data'' = Some bare_stats \<and>
   fst (GET_hackatime test_env utc_zone clock_2024 clock_2024 (answers wrapped_stats) None) =
     Inr \<lparr>status = 200, json_body = bare_stats\<rparr> \<and>
   bare_stats \<noteq> JNull \<and>
   field bare_stats ''data'' = None \<and>
   fst (GET_hackatime test_env utc_zone clock_2024 clock_2024 (answers bare_stats) None) =
     Inr \<lparr>status = 200, json_body = bare_stats\<rparr>"
proof -
  have c: "configured (HACKATIME_USERNAME test_env)"
    by (simp add: configured_def test_env_def)
  have h: "0 \<le> clock_2024" "clock_2024 < 253402300800000"
    by (simp_all add: clock_2024_def)
  have z: "zone_spread utc_zone"
    by (simp add: zone_spread_def utc_zone_def msPerDay_def)
  have f: "\<forall>call. answers p call = Resolves \<lparr>ok = True, upstream_status = 200, payload = Some p\<rparr>"
    for p by (simp add: answers_def)
  have o: "ok \<lparr>ok = True, upstream_status = 200, payload = Some p\<rparr>"
    and pl: "payload \<lparr>ok = True, upstream_status = 200, payload = Some p\<rparr> = Some p" for p
    by simp_all
  have w: "wrapped_stats \<noteq> JNull" "field wrapped_stats ''data'' = Some bare_stats"
    "truthy bare_stats"
    and b: "bare_stats \<noteq> JNull" "field bare_stats ''data'' = None"
    by (simp_all add: wrapped_stats_def bare_stats_def)
  note t1 = hackatime_returns_data_or_payload [OF c h h z f o pl w(1), of None]
  from t1 [THEN conjunct1, THEN spec, of bare_stats] w(2,3)
  have r1: "fst (GET_hackatime test_env utc_zone clock_2024 clock_2024 (answers wrapped_stats) None) =
     Inr \<lparr>status = 200, json_body = bare_stats\<rparr>"
    by simp
  note t2 = hackatime_returns_data_or_payload [OF c h h z f o pl b(1), of None]
  from t2 [THEN conjunct2, THEN conjunct2] b(2)
  have r2: "fst (GET_hackatime test_env utc_zone clock_2024 clock_2024 (answers bare_stats) None) =
     Inr \<lparr>status = 200, json_body = bare_stats\<rparr>"
    by simp
  show ?thesis by (intro conjI c h z o w(1,2) b r1 r2)
qed

section \<open>Range changes\<close>

text \<open>
  Claim C8. The range-change handler called with the active range leaves the state of
  the component as it is and issues no request; a request is issued exactly when the
  range differs from the active one, and then it is the request for the new range, which
  becomes the active one.
\<close>

theorem handleRangeChange_same_range:
  "handleRangeChange st (activeRange st) = (st, []) \<and>
   (snd (handleRangeChange st range') \<noteq> [] \<longleftrightarrow> range' \<noteq> activeRange st) \<and>
   (range' \<noteq> activeRange st \<longrightarrow>
      snd (handleRangeChange st range') = [''/api/hackatime?range='' @ range'] \<and>
      activeRange (fst (handleRangeChange st range')) = range')"
  by (simp add: handleRangeChange_def rangeEffect_def fetchHackatime_def)

theorem handleRangeChange_same_range_witness:
  "activeRange loaded_state = ''last_year'' \<and>
   handleRangeChange loaded_state ''last_year'' = (loaded_state, []) \<and>
   ''last_7_days'' \<noteq> activeRange loaded_state \<and>
   snd (handleRangeChange loaded_state ''last_7_days'') = [''/api/hackatime?range=last_7_days''] \<and>
   activeRange (fst (handleRangeChange loaded_state ''last_7_days'')) = ''last_7_days''"
proof -
  have a: "activeRange loaded_state = ''last_year''"
    by (simp add: loaded_state_def hackatimeResolved_def mount_def fetchHackatime_def initialState_def)
  then have b: "''last_7_days'' \<noteq> activeRange loaded_state" by simp
  from handleRangeChange_same_range [of loaded_state "''last_7_days''"] a b
  show ?thesis by (simp add: handleRangeChange_def)
qed

text \<open>
  Claim C9. On every change of the range (to a value other than the active one), at the
  start of the new fetch cycle, before any response arrives, the loaded time-tracking
  data is set to \<^verbatim>\<open>null\<close>, the error flag is reset and the loading flag is set; the request
  for the new range is under way, and apart from the active range no other state cell
  changes.
\<close>

theorem range_change_clears_data:
  "range' \<noteq> activeRange st \<longrightarrow>
     hackatimeData (fst (handleRangeChange st range')) = None \<and>
     \<not> errorHackatime (fst (handleRangeChange st range')) \<and>
     loadingHackatime (fst (handleRangeChange st range')) \<and>
     snd (handleRangeChange st range') = [''/api/hackatime?range='' @ range'] \<and>
     fst (handleRangeChange st range') =
       st\<lparr>activeRange := range', loadingHackatime := True, errorHackatime := False,
          hackatimeData := None\<rparr>"
  by (simp add: handleRangeChange_def rangeEffect_def fetchHackatime_def)

theorem range_change_clears_data_witness:
  "hackatimeData loaded_state = Some empty_stats \<and>
   ''last_30_days'' \<noteq> activeRange loaded_state \<and>
   hackatimeData (fst (handleRangeChange loaded_state ''last_30_days'')) = None \<and>
   loadingHackatime (fst (handleRangeChange loaded_state ''last_30_days'')) \<and>
   errorHackatime failed_state \<and>
   ''last_30_days'' \<noteq> activeRange failed_state \<and>
   \<not> errorHackatime (fst (handleRangeChange failed_state ''last_30_days''))"
proof -
  have a: "''last_30_days'' \<noteq> activeRange loaded_state"
    and b: "''last_30_days'' \<noteq> activeRange failed_state"
    and c: "hackatimeData loaded_state = Some empty_stats"
    and d: "errorHackatime failed_state"
    by (simp_all add: loaded_state_def failed_state_def hackatimeResolved_def hackatimeRejected_def
        mount_def fetchHackatime_def initialState_def)
  from range_change_clears_data [of "''last_30_days''" loaded_state]
    range_change_clears_data [of "''last_30_days''" failed_state] a b c d
  show ?thesis by simp
qed

end
